theory Spec2Isabelle
  imports Main "HOL-Library.Char_ord" "HOL-Library.List_Lexorder" "HOL-Library.Multiset"
begin

section \<open>Canonical payload serialization\<close>

text \<open>
  The values \<open>stableStringify\<close> receives. A string is the sequence of bytes of its
  UTF-8 encoding, which is what both sides feed to SHA-256. Numbers are the integers the
  request schemas admit (safe integers, printed in decimal). An object is the list of its
  entries in property order; its keys are pairwise distinct (\<open>wf_json\<close>).
\<close>

datatype json =
    JUndefined
  | JNull
  | JBool bool
  | JNum int
  | JStr string
  | JArr "json list"
  | JObj "(string \<times> json) list"

text \<open>\<open>JSON.stringify\<close> on a string: quotes, with the escapes of ECMA-262 QuoteJSONString.\<close>

definition hex_digit :: "nat \<Rightarrow> char" where
  "hex_digit d = ''0123456789abcdef'' ! (d mod 16)"

definition quote_char :: "char \<Rightarrow> string" where
  "quote_char c =
     (if c = CHR 0x08 then [CHR 0x5C, CHR ''b'']
      else if c = CHR 0x09 then [CHR 0x5C, CHR ''t'']
      else if c = CHR 0x0A then [CHR 0x5C, CHR ''n'']
      else if c = CHR 0x0C then [CHR 0x5C, CHR ''f'']
      else if c = CHR 0x0D then [CHR 0x5C, CHR ''r'']
      else if c = CHR 0x22 then [CHR 0x5C, CHR 0x22]
      else if c = CHR 0x5C then [CHR 0x5C, CHR 0x5C]
      else if (of_char c :: nat) < 0x20
        then [CHR 0x5C, CHR ''u'', CHR ''0'', CHR ''0'',
              hex_digit (of_char c div 16), hex_digit (of_char c)]
      else [c])"

definition json_quote :: "string \<Rightarrow> string" where
  "json_quote s = CHR 0x22 # concat (map quote_char s) @ [CHR 0x22]"

text \<open>\<open>JSON.stringify\<close> on an integer.\<close>

function digits :: "nat \<Rightarrow> string" where
  "digits n =
     (if n < 10 then [''0123456789'' ! n]
      else digits (n div 10) @ [''0123456789'' ! (n mod 10)])"
  by pat_completeness auto
termination
  by (relation "measure id") auto

definition number_str :: "int \<Rightarrow> string" where
  "number_str n = (if n < 0 then CHR ''-'' # digits (nat (- n)) else digits (nat n))"

text \<open>\<open>Array.prototype.join\<close> on a list of strings.\<close>

fun js_join :: "string \<Rightarrow> string list \<Rightarrow> string" where
  "js_join sep [] = []"
| "js_join sep [x] = x"
| "js_join sep (x # y # ys) = x @ sep @ js_join sep (y # ys)"

text \<open>
  \<open>entries.sort(([a], [b]) => a.localeCompare(b))\<close>: \<open>Array.prototype.sort\<close> is
  stable, so with a comparator \<open>lc\<close> it is the stable insertion sort on the keys.
  \<open>localeCompare\<close> belongs to the JavaScript runtime, not to the repository, and is a
  parameter of the model.
\<close>

fun insort_entry ::
  "(string \<Rightarrow> string \<Rightarrow> int) \<Rightarrow> string \<times> 'a \<Rightarrow> (string \<times> 'a) list \<Rightarrow> (string \<times> 'a) list" where
  "insort_entry lc e [] = [e]"
| "insort_entry lc e (x # xs) =
     (if lc (fst e) (fst x) \<le> 0 then e # x # xs else x # insort_entry lc e xs)"

definition sort_entries ::
  "(string \<Rightarrow> string \<Rightarrow> int) \<Rightarrow> (string \<times> 'a) list \<Rightarrow> (string \<times> 'a) list" where
  "sort_entries lc es = foldr (insort_entry lc) es []"

lemma set_insort_entry: "set (insort_entry lc e xs) = insert e (set xs)"
  by (induction xs) auto

lemma set_sort_entries: "set (sort_entries lc es) = set es"
  by (induction es) (auto simp: sort_entries_def set_insort_entry)

lemma size_entry_value:
  "(k, v) \<in> set es \<Longrightarrow> size v < Suc (size_list (size_prod (\<lambda>x. 0) size) es)"
  by (induction es) auto

text \<open>
  An element of a mapped array that is \<open>undefined\<close> is joined as the empty string; an
  \<open>undefined\<close> interpolated in a template literal reads \<open>undefined\<close>.
\<close>

definition array_item :: "string option \<Rightarrow> string" where
  "array_item r = (case r of None \<Rightarrow> [] | Some s \<Rightarrow> s)"

definition template_str :: "string option \<Rightarrow> string" where
  "template_str r = (case r of None \<Rightarrow> ''undefined'' | Some s \<Rightarrow> s)"

text \<open>
  \<open>stableStringify\<close> of the server (auth.ts). The result \<open>None\<close> is JavaScript's
  \<open>undefined\<close>, which \<open>JSON.stringify(undefined)\<close> returns.
\<close>

function stableStringify :: "(string \<Rightarrow> string \<Rightarrow> int) \<Rightarrow> json \<Rightarrow> string option" where
  "stableStringify lc JUndefined = None"
| "stableStringify lc JNull = Some ''null''"
| "stableStringify lc (JBool b) = Some (if b then ''true'' else ''false'')"
| "stableStringify lc (JNum n) = Some (number_str n)"
| "stableStringify lc (JStr s) = Some (json_quote s)"
| "stableStringify lc (JArr xs) =
     Some (''['' @ js_join '','' (map (\<lambda>item. array_item (stableStringify lc item)) xs) @ '']'')"
| "stableStringify lc (JObj es) =
     Some (''{'' @ js_join '',''
             (map (\<lambda>(key, value). json_quote key @ '':'' @ template_str (stableStringify lc value))
                (sort_entries lc es)) @ ''}'')"
  by pat_completeness auto
termination
proof (relation "measure (\<lambda>(lc, j). size j)", goal_cases)
  case 1
  then show ?case by simp
next
  case (2 lc xs x)
  then show ?case by (simp add: less_Suc_eq_le size_list_estimation')
next
  case (3 lc es p k v)
  then show ?case by (auto simp: set_sort_entries size_entry_value)
qed


section \<open>Payloads that are equal as maps\<close>



definition consistent_comparator :: "(string \<Rightarrow> string \<Rightarrow> int) \<Rightarrow> bool" where
  "consistent_comparator lc =
     ((\<forall>a b. (lc a b < 0) = (0 < lc b a)) \<and>
      (\<forall>a b c. lc a b \<le> 0 \<and> lc b c \<le> 0 \<longrightarrow> lc a c \<le> 0))"



definition agree_on :: "(string \<Rightarrow> string \<Rightarrow> int) \<Rightarrow> (string \<Rightarrow> string \<Rightarrow> int) \<Rightarrow> string set \<Rightarrow> bool" where
  "agree_on lc lc' K = (\<forall>a \<in> K. \<forall>b \<in> K. (lc a b \<le> 0) = (lc' a b \<le> 0))"

fun comparators_agree ::
  "(string \<Rightarrow> string \<Rightarrow> int) \<Rightarrow> (string \<Rightarrow> string \<Rightarrow> int) \<Rightarrow> json \<Rightarrow> bool" where
  "comparators_agree lc lc' (JArr xs) = (\<forall>x \<in> set xs. comparators_agree lc lc' x)"
| "comparators_agree lc lc' (JObj es) =
     (agree_on lc lc' (set (map fst es)) \<and> (\<forall>e \<in> set es. comparators_agree lc lc' (snd e)))"
| "comparators_agree lc lc' j = True"


section \<open>The JavaScript runtime and the cryptographic primitives\<close>

text \<open>
  What the server takes from outside the repository: the collation behind
  \<open>localeCompare\<close>, base64url decoding, \<open>createHash("sha256")...digest("base64url")\<close>
  and \<open>nacl.sign.detached.verify\<close> (which throws on a signature or key of the wrong
  size: \<open>Inl\<close> carries the message).
\<close>

record runtime =
  localeCompare :: "string \<Rightarrow> string \<Rightarrow> int"
  decodeBase64Url :: "string \<Rightarrow> string"
  sha256_base64url :: "string \<Rightarrow> string"
  nacl_verify :: "string \<Rightarrow> string \<Rightarrow> string \<Rightarrow> string + bool"

section \<open>Relay state (schema.ts)\<close>

record user_row =
  u_userId :: string
  u_identityPublicKey :: string
  u_signalIdentityPublicKey :: string
  u_registrationId :: int
  u_createdAt :: int

record prekey_row =
  pk_id :: int
  pk_userId :: string
  pk_signedPreKeyId :: int
  pk_signedPreKeyPublic :: string
  pk_signedPreKeySignature :: string
  pk_oneTimePreKeyId :: "int option"
  pk_oneTimePreKeyPublic :: "string option"
  pk_isUsed :: bool
  pk_createdAt :: int

record message_row =
  mq_queuedMsgId :: int
  mq_toUserId :: string
  mq_fromUserId :: string
  mq_ciphertext :: string
  mq_header :: string
  mq_clientMsgId :: string
  mq_createdAt :: int
  mq_expiresAt :: "int option"

record group_row =
  g_groupId :: int
  g_name :: string
  g_createdAt :: int
  g_createdByUserId :: string

datatype role = Owner | Admin | Member

record member_row =
  gm_groupId :: int
  gm_userId :: string
  gm_role :: role
  gm_joinedAt :: int

record gmessage_row =
  gq_queuedMsgId :: int
  gq_groupId :: int
  gq_fromUserId :: string
  gq_ciphertext :: string
  gq_header :: string
  gq_clientMsgId :: string
  gq_createdAt :: int

record nonce_row =
  an_nonce :: string
  an_userId :: string
  an_createdAt :: int

text \<open>
  The database: each table is the list of its rows in insertion order, each \<open>serial\<close>
  column has its sequence (the last value handed out; \<open>nextval\<close> is one more).
\<close>

record db =
  users :: "user_row list"
  prekeys :: "prekey_row list"
  prekeys_seq :: int
  messageQueue :: "message_row list"
  messageQueue_seq :: int
  groups :: "group_row list"
  groups_seq :: int
  groupMembers :: "member_row list"
  groupMessageQueue :: "gmessage_row list"
  groupMessageQueue_seq :: int
  authNonces :: "nonce_row list"

definition empty_db :: db where
  "empty_db = \<lparr> users = [], prekeys = [], prekeys_seq = 0, messageQueue = [],
     messageQueue_seq = 0, groups = [], groups_seq = 0, groupMembers = [],
     groupMessageQueue = [], groupMessageQueue_seq = 0, authNonces = [] \<rparr>"

definition user_exists :: "db \<Rightarrow> string \<Rightarrow> bool" where
  "user_exists s uid = (\<exists>u \<in> set (users s). u_userId u = uid)"

definition group_exists :: "db \<Rightarrow> int \<Rightarrow> bool" where
  "group_exists s gid = (\<exists>g \<in> set (groups s). g_groupId g = gid)"

text \<open>
  Inserts check the constraints the schema declares; \<open>None\<close> is the error the
  database driver throws on a violated constraint.
\<close>

text \<open>\<open>auth_nonces\<close>: primary key \<open>(user_id, nonce)\<close>.\<close>

definition nonce_used :: "db \<Rightarrow> string \<Rightarrow> string \<Rightarrow> bool" where
  "nonce_used s uid n = (\<exists>r \<in> set (authNonces s). an_userId r = uid \<and> an_nonce r = n)"

definition insert_authNonce :: "nonce_row \<Rightarrow> db \<Rightarrow> db option" where
  "insert_authNonce r s =
     (if nonce_used s (an_userId r) (an_nonce r) then None
      else Some (s\<lparr>authNonces := authNonces s @ [r]\<rparr>))"

text \<open>
  \<open>users\<close>: primary key \<open>user_id\<close>, \<open>identity_public_key\<close> and
  \<open>signal_identity_public_key\<close> unique. The insert is
  \<open>ON CONFLICT (user_id) DO UPDATE\<close>, which leaves \<open>created_at\<close> as it was.
\<close>

definition upsert_user :: "user_row \<Rightarrow> db \<Rightarrow> db option" where
  "upsert_user r s =
     (if \<exists>u \<in> set (users s). u_userId u \<noteq> u_userId r \<and>
           (u_identityPublicKey u = u_identityPublicKey r \<or>
            u_signalIdentityPublicKey u = u_signalIdentityPublicKey r)
      then None
      else if user_exists s (u_userId r)
      then Some (s\<lparr>users := map (\<lambda>u. if u_userId u = u_userId r
                     then u\<lparr>u_identityPublicKey := u_identityPublicKey r,
                            u_signalIdentityPublicKey := u_signalIdentityPublicKey r,
                            u_registrationId := u_registrationId r\<rparr>
                     else u) (users s)\<rparr>)
      else Some (s\<lparr>users := users s @ [r]\<rparr>))"

text \<open>
  \<open>prekeys\<close>: serial primary key \<open>id\<close>, \<open>user_id\<close> references \<open>users\<close>. One
  statement inserts all the rows, each taking the next value of the sequence.
\<close>

fun number_prekeys :: "int \<Rightarrow> prekey_row list \<Rightarrow> prekey_row list" where
  "number_prekeys n [] = []"
| "number_prekeys n (r # rs) = r\<lparr>pk_id := n + 1\<rparr> # number_prekeys (n + 1) rs"

definition insert_prekeys :: "prekey_row list \<Rightarrow> db \<Rightarrow> db option" where
  "insert_prekeys rs s =
     (let numbered = number_prekeys (prekeys_seq s) rs;
          s1 = s\<lparr>prekeys_seq := prekeys_seq s + int (length rs)\<rparr>
      in if rs = [] then None
         else if (\<exists>r \<in> set numbered. \<not> user_exists s (pk_userId r)) \<or>
                 (\<exists>r \<in> set numbered. \<exists>x \<in> set (prekeys s). pk_id x = pk_id r)
         then None
         else Some (s1\<lparr>prekeys := prekeys s @ numbered\<rparr>))"

text \<open>
  \<open>message_queue\<close>: serial primary key, unique
  \<open>(to_user_id, from_user_id, client_msg_id)\<close>, both user ids reference \<open>users\<close>.
  The insert is \<open>ON CONFLICT DO NOTHING ... RETURNING queued_msg_id\<close>: the result is
  the sequence state (the default is evaluated, and the value consumed, before the
  conflict is seen) together with \<open>None\<close> for a violated foreign key, \<open>Some []\<close> for a
  conflict and \<open>Some [id]\<close> for an inserted row.
\<close>

definition message_conflict :: "db \<Rightarrow> string \<Rightarrow> string \<Rightarrow> string \<Rightarrow> bool" where
  "message_conflict s to from cid =
     (\<exists>m \<in> set (messageQueue s).
        mq_toUserId m = to \<and> mq_fromUserId m = from \<and> mq_clientMsgId m = cid)"

definition insert_message :: "message_row \<Rightarrow> db \<Rightarrow> db \<times> int list option" where
  "insert_message r s =
     (let qid = messageQueue_seq s + 1;
          s1 = s\<lparr>messageQueue_seq := qid\<rparr>
      in if message_conflict s (mq_toUserId r) (mq_fromUserId r) (mq_clientMsgId r)
            \<or> (\<exists>m \<in> set (messageQueue s). mq_queuedMsgId m = qid)
         then (s1, Some [])
         else if \<not> user_exists s (mq_toUserId r) \<or> \<not> user_exists s (mq_fromUserId r)
         then (s1, None)
         else (s1\<lparr>messageQueue := messageQueue s @ [r\<lparr>mq_queuedMsgId := qid\<rparr>]\<rparr>, Some [qid]))"

text \<open>\<open>group_message_queue\<close>: the same, keyed by \<open>(group_id, from_user_id, client_msg_id)\<close>.\<close>

definition gmessage_conflict :: "db \<Rightarrow> int \<Rightarrow> string \<Rightarrow> string \<Rightarrow> bool" where
  "gmessage_conflict s gid from cid =
     (\<exists>m \<in> set (groupMessageQueue s).
        gq_groupId m = gid \<and> gq_fromUserId m = from \<and> gq_clientMsgId m = cid)"

definition insert_gmessage :: "gmessage_row \<Rightarrow> db \<Rightarrow> db \<times> int list option" where
  "insert_gmessage r s =
     (let qid = groupMessageQueue_seq s + 1;
          s1 = s\<lparr>groupMessageQueue_seq := qid\<rparr>
      in if gmessage_conflict s (gq_groupId r) (gq_fromUserId r) (gq_clientMsgId r)
            \<or> (\<exists>m \<in> set (groupMessageQueue s). gq_queuedMsgId m = qid)
         then (s1, Some [])
         else if \<not> group_exists s (gq_groupId r) \<or> \<not> user_exists s (gq_fromUserId r)
         then (s1, None)
         else (s1\<lparr>groupMessageQueue := groupMessageQueue s @ [r\<lparr>gq_queuedMsgId := qid\<rparr>]\<rparr>,
               Some [qid]))"

text \<open>
  \<open>groups\<close>: serial primary key, \<open>created_by_user_id\<close> references \<open>users\<close>;
  \<open>RETURNING group_id\<close>.
\<close>

definition insert_group :: "group_row \<Rightarrow> db \<Rightarrow> db \<times> int list option" where
  "insert_group r s =
     (let gid = groups_seq s + 1;
          s1 = s\<lparr>groups_seq := gid\<rparr>
      in if group_exists s gid \<or> \<not> user_exists s (g_createdByUserId r) then (s1, None)
         else (s1\<lparr>groups := groups s @ [r\<lparr>g_groupId := gid\<rparr>]\<rparr>, Some [gid]))"

text \<open>
  \<open>group_members\<close>: primary key \<open>(group_id, user_id)\<close>, both columns foreign keys.
  \<open>insert_members\<close> is the plain multi-row insert (one statement: all rows or none),
  \<open>insert_members_onConflictDoNothing\<close> skips the rows whose key is taken.
\<close>

definition is_member :: "member_row list \<Rightarrow> int \<Rightarrow> string \<Rightarrow> bool" where
  "is_member ms gid uid = (\<exists>m \<in> set ms. gm_groupId m = gid \<and> gm_userId m = uid)"

fun add_member_rows :: "member_row list \<Rightarrow> member_row list \<Rightarrow> member_row list" where
  "add_member_rows ms [] = ms"
| "add_member_rows ms (r # rs) =
     (if is_member ms (gm_groupId r) (gm_userId r) then add_member_rows ms rs
      else add_member_rows (ms @ [r]) rs)"

definition members_fk_ok :: "db \<Rightarrow> member_row list \<Rightarrow> bool" where
  "members_fk_ok s rs =
     (\<forall>r \<in> set rs. group_exists s (gm_groupId r) \<and> user_exists s (gm_userId r))"

definition insert_members :: "member_row list \<Rightarrow> db \<Rightarrow> db option" where
  "insert_members rs s =
     (if rs = [] then None
      else if \<not> members_fk_ok s rs then None
      else if (\<exists>r \<in> set rs. is_member (groupMembers s) (gm_groupId r) (gm_userId r))
              \<or> \<not> distinct (map (\<lambda>r. (gm_groupId r, gm_userId r)) rs)
      then None
      else Some (s\<lparr>groupMembers := groupMembers s @ rs\<rparr>))"

definition insert_members_onConflictDoNothing :: "member_row list \<Rightarrow> db \<Rightarrow> db option" where
  "insert_members_onConflictDoNothing rs s =
     (if rs = [] then None
      else if \<not> members_fk_ok s rs then None
      else Some (s\<lparr>groupMembers := add_member_rows (groupMembers s) rs\<rparr>))"

section \<open>Request authentication (auth.ts)\<close>

record auth_envelope =
  userId :: string
  identityPublicKey :: string
  nonce :: string
  signature :: string

definition deriveUserId :: "runtime \<Rightarrow> string \<Rightarrow> string" where
  "deriveUserId rt ipk = sha256_base64url rt (decodeBase64Url rt ipk)"

definition signed_string :: "runtime \<Rightarrow> string \<Rightarrow> auth_envelope \<Rightarrow> string \<Rightarrow> string" where
  "signed_string rt procedure auth canonical =
     procedure @ '':'' @ nonce auth @ '':'' @ sha256_base64url rt canonical"

text \<open>
  \<open>assertAuthenticated\<close>: \<open>Inl\<close> is the message of the error thrown. The payload is
  a record, so its canonical form is always a string; \<open>now\<close> is \<open>Date.now()\<close>.
\<close>

definition assertAuthenticated ::
  "runtime \<Rightarrow> int \<Rightarrow> string \<Rightarrow> auth_envelope \<Rightarrow> (string \<times> json) list \<Rightarrow> db
     \<Rightarrow> (string + string) \<times> db" where
  "assertAuthenticated rt now procedure auth payload s =
     (if deriveUserId rt (identityPublicKey auth) \<noteq> userId auth
      then (Inl ''auth.userId mismatch'', s)
      else case stableStringify (localeCompare rt) (JObj payload) of
        None \<Rightarrow> (Inl ''The data argument must be of type string'', s)
      | Some canonical \<Rightarrow>
          (case nacl_verify rt (signed_string rt procedure auth canonical)
                  (decodeBase64Url rt (signature auth))
                  (decodeBase64Url rt (identityPublicKey auth)) of
             Inl msg \<Rightarrow> (Inl msg, s)
           | Inr ok \<Rightarrow>
               if \<not> ok then (Inl ''invalid signature'', s)
               else (case insert_authNonce
                            \<lparr>an_nonce = nonce auth, an_userId = userId auth, an_createdAt = now\<rparr> s of
                       None \<Rightarrow> (Inl ''replayed request'', s)
                     | Some s' \<Rightarrow> (Inr (userId auth), s'))))"

section \<open>The procedures (router.ts)\<close>

datatype trpc_error =
    UNAUTHORIZED string
  | BAD_REQUEST string
  | FORBIDDEN string
  | NOT_FOUND string
  | INTERNAL_SERVER_ERROR

definition requireAuth ::
  "runtime \<Rightarrow> int \<Rightarrow> string \<Rightarrow> auth_envelope \<Rightarrow> (string \<times> json) list \<Rightarrow> db
     \<Rightarrow> (trpc_error + string) \<times> db" where
  "requireAuth rt now procedure auth payload s =
     (case assertAuthenticated rt now procedure auth payload s of
        (Inl msg, s') \<Rightarrow> (Inl (UNAUTHORIZED msg), s')
      | (Inr uid, s') \<Rightarrow> (Inr uid, s'))"

record signed_pre_key =
  spk_keyId :: int
  spk_publicKey :: string
  spk_signature :: string

record pre_key =
  otk_keyId :: int
  otk_publicKey :: string

record key_bundle =
  b_registrationId :: int
  b_signalIdentityPublicKey :: string
  b_signedPreKey :: signed_pre_key
  b_oneTimePreKey :: "pre_key option"

record my_group =
  mg_groupId :: int
  mg_name :: string
  mg_createdAt :: int
  mg_createdByUserId :: string
  mg_role :: role

datatype response =
    Ok
  | Bundle key_bundle
  | QueuedMsgId int
  | Messages "message_row list"
  | GroupId int
  | MyGroups "my_group list"
  | Members "(string \<times> role \<times> int) list"
  | GroupMessages "gmessage_row list"

type_synonym result = "(trpc_error + response) \<times> db"

subsection \<open>identity\<close>

definition registerBundle_payload ::
  "string \<Rightarrow> int \<Rightarrow> signed_pre_key \<Rightarrow> pre_key list \<Rightarrow> (string \<times> json) list" where
  "registerBundle_payload signalIdentityPublicKey registrationId signedPreKey oneTimePreKeys =
     [(''signalIdentityPublicKey'', JStr signalIdentityPublicKey),
      (''registrationId'', JNum registrationId),
      (''signedPreKey'', JObj [(''keyId'', JNum (spk_keyId signedPreKey)),
                              (''publicKey'', JStr (spk_publicKey signedPreKey)),
                              (''signature'', JStr (spk_signature signedPreKey))]),
      (''oneTimePreKeys'',
         JArr (map (\<lambda>item. JObj [(''keyId'', JNum (otk_keyId item)),
                                 (''publicKey'', JStr (otk_publicKey item))]) oneTimePreKeys))]"

definition identity_registerBundle ::
  "runtime \<Rightarrow> int \<Rightarrow> auth_envelope \<Rightarrow> string \<Rightarrow> int \<Rightarrow> signed_pre_key \<Rightarrow> pre_key list
     \<Rightarrow> db \<Rightarrow> result" where
  "identity_registerBundle rt now auth signalIdentityPublicKey registrationId signedPreKey
       oneTimePreKeys s =
     (case requireAuth rt now ''identity.registerBundle'' auth
             (registerBundle_payload signalIdentityPublicKey registrationId signedPreKey
                oneTimePreKeys) s of
        (Inl e, s1) \<Rightarrow> (Inl e, s1)
      | (Inr uid, s1) \<Rightarrow>
          (case upsert_user \<lparr>u_userId = uid, u_identityPublicKey = identityPublicKey auth,
                              u_signalIdentityPublicKey = signalIdentityPublicKey,
                              u_registrationId = registrationId, u_createdAt = now\<rparr> s1 of
             None \<Rightarrow> (Inl INTERNAL_SERVER_ERROR, s1)
           | Some s2 \<Rightarrow>
               (let s3 = s2\<lparr>prekeys := filter (\<lambda>r. pk_userId r \<noteq> uid) (prekeys s2)\<rparr>
                in case insert_prekeys
                          (map (\<lambda>item. \<lparr>pk_id = 0, pk_userId = uid,
                                  pk_signedPreKeyId = spk_keyId signedPreKey,
                                  pk_signedPreKeyPublic = spk_publicKey signedPreKey,
                                  pk_signedPreKeySignature = spk_signature signedPreKey,
                                  pk_oneTimePreKeyId = Some (otk_keyId item),
                                  pk_oneTimePreKeyPublic = Some (otk_publicKey item),
                                  pk_isUsed = False, pk_createdAt = now\<rparr>) oneTimePreKeys) s3 of
                     None \<Rightarrow> (Inl INTERNAL_SERVER_ERROR, s3)
                   | Some s4 \<Rightarrow> (Inr Ok, s4))))"

text \<open>
  \<open>getBundle\<close> takes no envelope. \<open>ORDER BY id LIMIT 1\<close> over the user's unused rows is
  the head of the rows sorted by id.
\<close>

definition unused_prekeys :: "db \<Rightarrow> string \<Rightarrow> prekey_row list" where
  "unused_prekeys s uid =
     sort_key pk_id (filter (\<lambda>r. pk_userId r = uid \<and> \<not> pk_isUsed r) (prekeys s))"

definition mark_used :: "int \<Rightarrow> db \<Rightarrow> db" where
  "mark_used i s =
     s\<lparr>prekeys := map (\<lambda>r. if pk_id r = i then r\<lparr>pk_isUsed := True\<rparr> else r) (prekeys s)\<rparr>"

definition identity_getBundle :: "string \<Rightarrow> db \<Rightarrow> result" where
  "identity_getBundle uid s =
     (case find (\<lambda>u. u_userId u = uid) (users s) of
        None \<Rightarrow> (Inl (NOT_FOUND ''user not found''), s)
      | Some identity \<Rightarrow>
          (case unused_prekeys s uid of
             [] \<Rightarrow> (Inl (NOT_FOUND ''no prekey bundle''), s)
           | prekey # rest \<Rightarrow>
               (let s' = (if pk_oneTimePreKeyId prekey \<noteq> None then mark_used (pk_id prekey) s
                          else s)
                in (Inr (Bundle
                     \<lparr>b_registrationId = u_registrationId identity,
                      b_signalIdentityPublicKey = u_signalIdentityPublicKey identity,
                      b_signedPreKey =
                        \<lparr>spk_keyId = pk_signedPreKeyId prekey,
                         spk_publicKey = pk_signedPreKeyPublic prekey,
                         spk_signature = pk_signedPreKeySignature prekey\<rparr>,
                      b_oneTimePreKey =
                        (case (pk_oneTimePreKeyId prekey, pk_oneTimePreKeyPublic prekey) of
                           (Some k, Some p) \<Rightarrow> Some \<lparr>otk_keyId = k, otk_publicKey = p\<rparr>
                         | _ \<Rightarrow> None)\<rparr>), s'))))"

subsection \<open>message\<close>

definition send_payload ::
  "string \<Rightarrow> string \<Rightarrow> string \<Rightarrow> string \<Rightarrow> int \<Rightarrow> (string \<times> json) list" where
  "send_payload toUserId ciphertext header clientMsgId createdAt =
     [(''toUserId'', JStr toUserId), (''ciphertext'', JStr ciphertext),
      (''header'', JStr header), (''clientMsgId'', JStr clientMsgId),
      (''createdAt'', JNum createdAt)]"

definition message_send ::
  "runtime \<Rightarrow> int \<Rightarrow> auth_envelope \<Rightarrow> string \<Rightarrow> string \<Rightarrow> string \<Rightarrow> string \<Rightarrow> int
     \<Rightarrow> db \<Rightarrow> result" where
  "message_send rt now auth toUserId ciphertext header clientMsgId createdAt s =
     (case requireAuth rt now ''message.send'' auth
             (send_payload toUserId ciphertext header clientMsgId createdAt) s of
        (Inl e, s1) \<Rightarrow> (Inl e, s1)
      | (Inr fromUserId, s1) \<Rightarrow>
          if \<not> user_exists s1 toUserId then (Inl (BAD_REQUEST ''target user not found''), s1)
          else (case insert_message
                       \<lparr>mq_queuedMsgId = 0, mq_toUserId = toUserId, mq_fromUserId = fromUserId,
                        mq_ciphertext = ciphertext, mq_header = header,
                        mq_clientMsgId = clientMsgId, mq_createdAt = createdAt,
                        mq_expiresAt = None\<rparr> s1 of
                  (s2, None) \<Rightarrow> (Inl INTERNAL_SERVER_ERROR, s2)
                | (s2, Some (qid # rest)) \<Rightarrow> (Inr (QueuedMsgId qid), s2)
                | (s2, Some []) \<Rightarrow>
                    (case find (\<lambda>m. mq_toUserId m = toUserId \<and> mq_fromUserId m = fromUserId
                                      \<and> mq_clientMsgId m = clientMsgId) (messageQueue s2) of
                       Some existing \<Rightarrow> (Inr (QueuedMsgId (mq_queuedMsgId existing)), s2)
                     | None \<Rightarrow> (Inr (QueuedMsgId (- 1)), s2))))"

text \<open>
  \<open>if (since) conditions.push(gt(createdAt, since))\<close>: an omitted \<open>since\<close> and
  \<open>since = 0\<close> are both falsy and add no condition. \<open>ORDER BY created_at\<close> is
  the sort on \<open>createdAt\<close>; rows with equal \<open>createdAt\<close>, which the database may
  return in any order, are kept in table order.
\<close>

definition since_condition :: "int option \<Rightarrow> int \<Rightarrow> bool" where
  "since_condition since createdAt =
     (case since of None \<Rightarrow> True | Some t \<Rightarrow> if t \<noteq> 0 then t < createdAt else True)"

definition since_json :: "int option \<Rightarrow> json" where
  "since_json since = (case since of None \<Rightarrow> JUndefined | Some t \<Rightarrow> JNum t)"

definition message_poll :: "runtime \<Rightarrow> int \<Rightarrow> auth_envelope \<Rightarrow> int option \<Rightarrow> db \<Rightarrow> result" where
  "message_poll rt now auth since s =
     (case requireAuth rt now ''message.poll'' auth [(''since'', since_json since)] s of
        (Inl e, s1) \<Rightarrow> (Inl e, s1)
      | (Inr uid, s1) \<Rightarrow>
          (Inr (Messages (sort_key mq_createdAt
             (filter (\<lambda>m. mq_toUserId m = uid \<and> since_condition since (mq_createdAt m))
                (messageQueue s1)))), s1))"

definition message_ackDelete :: "runtime \<Rightarrow> int \<Rightarrow> auth_envelope \<Rightarrow> int \<Rightarrow> db \<Rightarrow> result" where
  "message_ackDelete rt now auth queuedMsgId s =
     (case requireAuth rt now ''message.ackDelete'' auth [(''queuedMsgId'', JNum queuedMsgId)] s of
        (Inl e, s1) \<Rightarrow> (Inl e, s1)
      | (Inr uid, s1) \<Rightarrow>
          (Inr Ok, s1\<lparr>messageQueue :=
             filter (\<lambda>m. \<not> (mq_queuedMsgId m = queuedMsgId \<and> mq_toUserId m = uid))
               (messageQueue s1)\<rparr>))"

subsection \<open>group\<close>

text \<open>\<open>Array.from(new Set(xs))\<close>: the elements of \<open>xs\<close> in order of first occurrence.\<close>

definition array_from_set :: "'a list \<Rightarrow> 'a list" where
  "array_from_set xs = fold (\<lambda>x acc. if x \<in> set acc then acc else acc @ [x]) xs []"

definition known_users :: "db \<Rightarrow> string list \<Rightarrow> user_row list" where
  "known_users s ids = filter (\<lambda>u. u_userId u \<in> set ids) (users s)"

definition create_payload :: "string \<Rightarrow> string list \<Rightarrow> (string \<times> json) list" where
  "create_payload name memberUserIds =
     [(''name'', JStr name), (''memberUserIds'', JArr (map JStr memberUserIds))]"

definition group_create ::
  "runtime \<Rightarrow> int \<Rightarrow> auth_envelope \<Rightarrow> string \<Rightarrow> string list \<Rightarrow> db \<Rightarrow> result" where
  "group_create rt now auth name payload_memberUserIds s =
     (case requireAuth rt now ''group.create'' auth (create_payload name payload_memberUserIds) s of
        (Inl e, s1) \<Rightarrow> (Inl e, s1)
      | (Inr uid, s1) \<Rightarrow>
          (let memberUserIds = array_from_set (uid # payload_memberUserIds)
           in if length (known_users s1 memberUserIds) \<noteq> length memberUserIds
              then (Inl (BAD_REQUEST ''unknown userId included''), s1)
              else (case insert_group \<lparr>g_groupId = 0, g_name = name, g_createdAt = now,
                                        g_createdByUserId = uid\<rparr> s1 of
                      (s2, None) \<Rightarrow> (Inl INTERNAL_SERVER_ERROR, s2)
                    | (s2, Some []) \<Rightarrow> (Inl (BAD_REQUEST ''failed to create group''), s2)
                    | (s2, Some (groupId # rest)) \<Rightarrow>
                        if groupId = 0 then (Inl (BAD_REQUEST ''failed to create group''), s2)
                        else (case insert_members
                                     (map (\<lambda>memberUserId.
                                        \<lparr>gm_groupId = groupId, gm_userId = memberUserId,
                                         gm_role = (if memberUserId = uid then Owner else Member),
                                         gm_joinedAt = now\<rparr>) memberUserIds) s2 of
                                None \<Rightarrow> (Inl INTERNAL_SERVER_ERROR, s2)
                              | Some s3 \<Rightarrow> (Inr (GroupId groupId), s3)))))"

definition addMembers_payload :: "int \<Rightarrow> string list \<Rightarrow> (string \<times> json) list" where
  "addMembers_payload groupId memberUserIds =
     [(''groupId'', JNum groupId), (''memberUserIds'', JArr (map JStr memberUserIds))]"

definition member_of :: "db \<Rightarrow> int \<Rightarrow> string \<Rightarrow> member_row option" where
  "member_of s gid uid = find (\<lambda>m. gm_groupId m = gid \<and> gm_userId m = uid) (groupMembers s)"

definition group_addMembers ::
  "runtime \<Rightarrow> int \<Rightarrow> auth_envelope \<Rightarrow> int \<Rightarrow> string list \<Rightarrow> db \<Rightarrow> result" where
  "group_addMembers rt now auth groupId memberUserIds s =
     (case requireAuth rt now ''group.addMembers'' auth
             (addMembers_payload groupId memberUserIds) s of
        (Inl e, s1) \<Rightarrow> (Inl e, s1)
      | (Inr uid, s1) \<Rightarrow>
          (case member_of s1 groupId uid of
             None \<Rightarrow> (Inl (FORBIDDEN ''insufficient role''), s1)
           | Some actor \<Rightarrow>
               if gm_role actor \<noteq> Owner \<and> gm_role actor \<noteq> Admin
               then (Inl (FORBIDDEN ''insufficient role''), s1)
               else if length (known_users s1 memberUserIds) \<noteq> length memberUserIds
               then (Inl (BAD_REQUEST ''unknown userId included''), s1)
               else (case insert_members_onConflictDoNothing
                            (map (\<lambda>memberUserId.
                               \<lparr>gm_groupId = groupId, gm_userId = memberUserId,
                                gm_role = Member, gm_joinedAt = now\<rparr>) memberUserIds) s1 of
                       None \<Rightarrow> (Inl INTERNAL_SERVER_ERROR, s1)
                     | Some s2 \<Rightarrow> (Inr Ok, s2))))"

definition group_listMine :: "runtime \<Rightarrow> int \<Rightarrow> auth_envelope \<Rightarrow> db \<Rightarrow> result" where
  "group_listMine rt now auth s =
     (case requireAuth rt now ''group.listMine'' auth [] s of
        (Inl e, s1) \<Rightarrow> (Inl e, s1)
      | (Inr uid, s1) \<Rightarrow>
          (Inr (MyGroups (sort_key mg_createdAt
             (concat (map (\<lambda>m. map (\<lambda>g. \<lparr>mg_groupId = g_groupId g, mg_name = g_name g,
                                           mg_createdAt = g_createdAt g,
                                           mg_createdByUserId = g_createdByUserId g,
                                           mg_role = gm_role m\<rparr>)
                                  (filter (\<lambda>g. g_groupId g = gm_groupId m) (groups s1)))
                        (filter (\<lambda>m. gm_userId m = uid) (groupMembers s1)))))), s1))"

definition group_getMembers :: "runtime \<Rightarrow> int \<Rightarrow> auth_envelope \<Rightarrow> int \<Rightarrow> db \<Rightarrow> result" where
  "group_getMembers rt now auth groupId s =
     (case requireAuth rt now ''group.getMembers'' auth [(''groupId'', JNum groupId)] s of
        (Inl e, s1) \<Rightarrow> (Inl e, s1)
      | (Inr uid, s1) \<Rightarrow>
          (case member_of s1 groupId uid of
             None \<Rightarrow> (Inl (FORBIDDEN ''not a group member''), s1)
           | Some self \<Rightarrow>
               (Inr (Members (map (\<lambda>m. (gm_userId m, gm_role m, gm_joinedAt m))
                        (filter (\<lambda>m. gm_groupId m = groupId) (groupMembers s1)))), s1)))"

definition post_payload ::
  "int \<Rightarrow> string \<Rightarrow> string \<Rightarrow> string \<Rightarrow> int \<Rightarrow> (string \<times> json) list" where
  "post_payload groupId ciphertext header clientMsgId createdAt =
     [(''groupId'', JNum groupId), (''ciphertext'', JStr ciphertext),
      (''header'', JStr header), (''clientMsgId'', JStr clientMsgId),
      (''createdAt'', JNum createdAt)]"

definition group_post ::
  "runtime \<Rightarrow> int \<Rightarrow> auth_envelope \<Rightarrow> int \<Rightarrow> string \<Rightarrow> string \<Rightarrow> string \<Rightarrow> int
     \<Rightarrow> db \<Rightarrow> result" where
  "group_post rt now auth groupId ciphertext header clientMsgId createdAt s =
     (case requireAuth rt now ''group.post'' auth
             (post_payload groupId ciphertext header clientMsgId createdAt) s of
        (Inl e, s1) \<Rightarrow> (Inl e, s1)
      | (Inr uid, s1) \<Rightarrow>
          (case member_of s1 groupId uid of
             None \<Rightarrow> (Inl (FORBIDDEN ''not a group member''), s1)
           | Some self \<Rightarrow>
               (case insert_gmessage
                       \<lparr>gq_queuedMsgId = 0, gq_groupId = groupId, gq_fromUserId = uid,
                        gq_ciphertext = ciphertext, gq_header = header,
                        gq_clientMsgId = clientMsgId, gq_createdAt = createdAt\<rparr> s1 of
                  (s2, None) \<Rightarrow> (Inl INTERNAL_SERVER_ERROR, s2)
                | (s2, Some (qid # rest)) \<Rightarrow> (Inr (QueuedMsgId qid), s2)
                | (s2, Some []) \<Rightarrow>
                    (case find (\<lambda>m. gq_groupId m = groupId \<and> gq_fromUserId m = uid
                                      \<and> gq_clientMsgId m = clientMsgId) (groupMessageQueue s2) of
                       Some existing \<Rightarrow> (Inr (QueuedMsgId (gq_queuedMsgId existing)), s2)
                     | None \<Rightarrow> (Inr (QueuedMsgId (- 1)), s2)))))"

definition group_poll ::
  "runtime \<Rightarrow> int \<Rightarrow> auth_envelope \<Rightarrow> int \<Rightarrow> int option \<Rightarrow> db \<Rightarrow> result" where
  "group_poll rt now auth groupId since s =
     (case requireAuth rt now ''group.poll'' auth
             [(''groupId'', JNum groupId), (''since'', since_json since)] s of
        (Inl e, s1) \<Rightarrow> (Inl e, s1)
      | (Inr uid, s1) \<Rightarrow>
          (case member_of s1 groupId uid of
             None \<Rightarrow> (Inl (FORBIDDEN ''not a group member''), s1)
           | Some self \<Rightarrow>
               (Inr (GroupMessages (sort_key gq_createdAt
                  (filter (\<lambda>m. gq_groupId m = groupId \<and> since_condition since (gq_createdAt m))
                     (groupMessageQueue s1)))), s1)))"

definition group_ackDelete :: "runtime \<Rightarrow> int \<Rightarrow> auth_envelope \<Rightarrow> int \<Rightarrow> db \<Rightarrow> result" where
  "group_ackDelete rt now auth queuedMsgId s =
     (case requireAuth rt now ''group.ackDelete'' auth [(''queuedMsgId'', JNum queuedMsgId)] s of
        (Inl e, s1) \<Rightarrow> (Inl e, s1)
      | (Inr uid, s1) \<Rightarrow>
          (case find (\<lambda>m. gq_queuedMsgId m = queuedMsgId) (groupMessageQueue s1) of
             None \<Rightarrow> (Inr Ok, s1)
           | Some row \<Rightarrow>
               (case member_of s1 (gq_groupId row) uid of
                  None \<Rightarrow> (Inl (FORBIDDEN ''not a group member''), s1)
                | Some self \<Rightarrow> (Inr Ok, s1))))"

subsection \<open>The router\<close>

datatype request =
    IdentityRegisterBundle auth_envelope string int signed_pre_key "pre_key list"
  | IdentityGetBundle string
  | MessageSend auth_envelope string string string string int
  | MessagePoll auth_envelope "int option"
  | MessageAckDelete auth_envelope int
  | GroupCreate auth_envelope string "string list"
  | GroupAddMembers auth_envelope int "string list"
  | GroupListMine auth_envelope
  | GroupGetMembers auth_envelope int
  | GroupPost auth_envelope int string string string int
  | GroupPoll auth_envelope int "int option"
  | GroupAckDelete auth_envelope int

text \<open>One request, served at time \<open>now\<close>.\<close>

fun appRouter :: "runtime \<Rightarrow> int \<Rightarrow> request \<Rightarrow> db \<Rightarrow> result" where
  "appRouter rt now (IdentityRegisterBundle auth sipk rid spk otks) s =
     identity_registerBundle rt now auth sipk rid spk otks s"
| "appRouter rt now (IdentityGetBundle uid) s = identity_getBundle uid s"
| "appRouter rt now (MessageSend auth to c h cid t) s = message_send rt now auth to c h cid t s"
| "appRouter rt now (MessagePoll auth since) s = message_poll rt now auth since s"
| "appRouter rt now (MessageAckDelete auth qid) s = message_ackDelete rt now auth qid s"
| "appRouter rt now (GroupCreate auth name ids) s = group_create rt now auth name ids s"
| "appRouter rt now (GroupAddMembers auth gid ids) s = group_addMembers rt now auth gid ids s"
| "appRouter rt now (GroupListMine auth) s = group_listMine rt now auth s"
| "appRouter rt now (GroupGetMembers auth gid) s = group_getMembers rt now auth gid s"
| "appRouter rt now (GroupPost auth gid c h cid t) s = group_post rt now auth gid c h cid t s"
| "appRouter rt now (GroupPoll auth gid since) s = group_poll rt now auth gid since s"
| "appRouter rt now (GroupAckDelete auth qid) s = group_ackDelete rt now auth qid s"

text \<open>A sequence of requests, each with its time, served one after the other.\<close>

fun serve :: "runtime \<Rightarrow> (int \<times> request) list \<Rightarrow> db \<Rightarrow> db" where
  "serve rt [] s = s"
| "serve rt ((now, r) # rs) s = serve rt rs (snd (appRouter rt now r s))"

section \<open>Authenticated requests\<close>

text \<open>
  The canonical form of a payload, and what \<open>assertAuthenticated\<close> checks of an
  envelope before it touches the nonce table: the user id is derived from the public
  key, and the signature verifies over \<open>procedure:nonce:hash\<close>.
\<close>

definition canonical :: "runtime \<Rightarrow> (string \<times> json) list \<Rightarrow> string" where
  "canonical rt payload = template_str (stableStringify (localeCompare rt) (JObj payload))"

definition envelope_ok :: "runtime \<Rightarrow> string \<Rightarrow> auth_envelope \<Rightarrow> (string \<times> json) list \<Rightarrow> bool" where
  "envelope_ok rt procedure auth payload =
     (deriveUserId rt (identityPublicKey auth) = userId auth \<and>
      nacl_verify rt (signed_string rt procedure auth (canonical rt payload))
        (decodeBase64Url rt (signature auth)) (decodeBase64Url rt (identityPublicKey auth))
        = Inr True)"

text \<open>The procedure name, envelope and signed payload of a request; \<open>getBundle\<close> has none.\<close>

fun request_auth :: "request \<Rightarrow> (string \<times> auth_envelope \<times> (string \<times> json) list) option" where
  "request_auth (IdentityRegisterBundle auth sipk rid spk otks) =
     Some (''identity.registerBundle'', auth, registerBundle_payload sipk rid spk otks)"
| "request_auth (IdentityGetBundle uid) = None"
| "request_auth (MessageSend auth to c h cid t) =
     Some (''message.send'', auth, send_payload to c h cid t)"
| "request_auth (MessagePoll auth since) =
     Some (''message.poll'', auth, [(''since'', since_json since)])"
| "request_auth (MessageAckDelete auth qid) =
     Some (''message.ackDelete'', auth, [(''queuedMsgId'', JNum qid)])"
| "request_auth (GroupCreate auth name ids) =
     Some (''group.create'', auth, create_payload name ids)"
| "request_auth (GroupAddMembers auth gid ids) =
     Some (''group.addMembers'', auth, addMembers_payload gid ids)"
| "request_auth (GroupListMine auth) = Some (''group.listMine'', auth, [])"
| "request_auth (GroupGetMembers auth gid) =
     Some (''group.getMembers'', auth, [(''groupId'', JNum gid)])"
| "request_auth (GroupPost auth gid c h cid t) =
     Some (''group.post'', auth, post_payload gid c h cid t)"
| "request_auth (GroupPoll auth gid since) =
     Some (''group.poll'', auth, [(''groupId'', JNum gid), (''since'', since_json since)])"
| "request_auth (GroupAckDelete auth qid) =
     Some (''group.ackDelete'', auth, [(''queuedMsgId'', JNum qid)])"

text \<open>The state after the nonce of an envelope has been recorded at time \<open>now\<close>.\<close>

definition with_nonce :: "int \<Rightarrow> auth_envelope \<Rightarrow> db \<Rightarrow> db" where
  "with_nonce now auth s = s\<lparr>authNonces := authNonces s @
      [\<lparr>an_nonce = nonce auth, an_userId = userId auth, an_createdAt = now\<rparr>]\<rparr>"

section \<open>State invariants and row shapes used by the theorems\<close>

text \<open>
  The ids of the queued messages were handed out by the sequence (true of every state
  the procedures build from the empty database), and the rows a \<open>message.send\<close> is
  keyed on and inserts.
\<close>

definition message_ids_allocated :: "db \<Rightarrow> bool" where
  "message_ids_allocated s = (\<forall>m \<in> set (messageQueue s). mq_queuedMsgId m \<le> messageQueue_seq s)"


definition new_message :: "int \<Rightarrow> string \<Rightarrow> string \<Rightarrow> string \<Rightarrow> string \<Rightarrow> string \<Rightarrow> int \<Rightarrow> message_row" where
  "new_message qid to from c h cid ts =
     \<lparr>mq_queuedMsgId = qid, mq_toUserId = to, mq_fromUserId = from, mq_ciphertext = c,
      mq_header = h, mq_clientMsgId = cid, mq_createdAt = ts, mq_expiresAt = None\<rparr>"

text \<open>
  What \<open>message.poll\<close> is to return for \<open>since\<close>: the rows addressed to the user,
  later than the threshold when there is one; and the rows of a poll response.
\<close>

definition addressed_after :: "string \<Rightarrow> int option \<Rightarrow> message_row \<Rightarrow> bool" where
  "addressed_after uid since m =
     (mq_toUserId m = uid \<and> (case since of None \<Rightarrow> True | Some T \<Rightarrow> T < mq_createdAt m))"

definition polled :: "trpc_error + response \<Rightarrow> message_row list" where
  "polled r = (case r of Inr (Messages ms) \<Rightarrow> ms | _ \<Rightarrow> [])"

text \<open>
  \<open>users.user_id\<close> is a primary key; group ids were handed out by the sequence, and
  every member row belongs to a group that was; the member rows \<open>group.create\<close> and
  \<open>group.addMembers\<close> insert; the actor's role in a group, and whether it allows adding
  members.
\<close>

definition users_unique :: "db \<Rightarrow> bool" where
  "users_unique s = distinct (map u_userId (users s))"

definition groups_allocated :: "db \<Rightarrow> bool" where
  "groups_allocated s =
     (0 \<le> groups_seq s \<and> (\<forall>g \<in> set (groups s). g_groupId g \<le> groups_seq s)
      \<and> (\<forall>m \<in> set (groupMembers s). gm_groupId m \<le> groups_seq s))"

definition new_member :: "int \<Rightarrow> string \<Rightarrow> int \<Rightarrow> string \<Rightarrow> member_row" where
  "new_member gid creator now u =
     \<lparr>gm_groupId = gid, gm_userId = u, gm_role = (if u = creator then Owner else Member),
      gm_joinedAt = now\<rparr>"




text \<open>
  The key ids of the one-time pre-keys a user has left (the unused rows, in table order),
  the key id a request hands out for that user, the key ids handed out along a sequence
  of requests, and the requests that replace the user's pool.
\<close>

definition key_list :: "prekey_row list \<Rightarrow> int list" where
  "key_list rs = concat (map (\<lambda>r. case pk_oneTimePreKeyId r of None \<Rightarrow> [] | Some k \<Rightarrow> [k]) rs)"

definition unused_keyIds :: "db \<Rightarrow> string \<Rightarrow> int list" where
  "unused_keyIds s uid = key_list (filter (\<lambda>r. pk_userId r = uid \<and> \<not> pk_isUsed r) (prekeys s))"

fun fetched_keyId :: "string \<Rightarrow> request \<Rightarrow> trpc_error + response \<Rightarrow> int list" where
  "fetched_keyId uid (IdentityGetBundle u) (Inr (Bundle b)) =
     (if u = uid then (case b_oneTimePreKey b of None \<Rightarrow> [] | Some k \<Rightarrow> [otk_keyId k]) else [])"
| "fetched_keyId uid r res = []"

fun issued_keyIds :: "runtime \<Rightarrow> string \<Rightarrow> (int \<times> request) list \<Rightarrow> db \<Rightarrow> int list" where
  "issued_keyIds rt uid [] s = []"
| "issued_keyIds rt uid ((now, r) # rs) s =
     fetched_keyId uid r (fst (appRouter rt now r s))
       @ issued_keyIds rt uid rs (snd (appRouter rt now r s))"

fun registers :: "string \<Rightarrow> request \<Rightarrow> bool" where
  "registers uid (IdentityRegisterBundle auth sipk rid spk otks) = (userId auth = uid)"
| "registers uid r = False"

text \<open>The three invariants together.\<close>

definition schema_invariant :: "db \<Rightarrow> bool" where
  "schema_invariant s = (users_unique s \<and> message_ids_allocated s \<and> groups_allocated s)"

section \<open>A concrete runtime and concrete databases for the examples\<close>

text \<open>
  The examples run the model on a small runtime: keys are compared by code units, the
  hash and the base64url decoding are the identity (so a user's id is its public key),
  and a signature is valid when it is the public key followed by the signed string.
\<close>

definition codeUnitCompare :: "string \<Rightarrow> string \<Rightarrow> int" where
  "codeUnitCompare a b = (if a < b then - 1 else if b < a then 1 else 0)"

definition demo_runtime :: runtime where
  "demo_runtime = \<lparr> localeCompare = codeUnitCompare, decodeBase64Url = (\<lambda>x. x),
     sha256_base64url = (\<lambda>x. x), nacl_verify = (\<lambda>m sig pk. Inr (sig = pk @ m)) \<rparr>"

definition demo_sign ::
  "string \<Rightarrow> string \<Rightarrow> string \<Rightarrow> (string \<times> json) list \<Rightarrow> auth_envelope" where
  "demo_sign key n procedure payload =
     \<lparr> userId = key, identityPublicKey = key, nonce = n,
       signature = key @ procedure @ '':'' @ n @ '':'' @
         template_str (stableStringify codeUnitCompare (JObj payload)) \<rparr>"

definition demo_user :: "string \<Rightarrow> user_row" where
  "demo_user k = \<lparr>u_userId = k, u_identityPublicKey = k,
     u_signalIdentityPublicKey = ''signal-'' @ k, u_registrationId = 1, u_createdAt = 1\<rparr>"

definition demo_prekey :: "int \<Rightarrow> string \<Rightarrow> int \<Rightarrow> prekey_row" where
  "demo_prekey i k otk = \<lparr>pk_id = i, pk_userId = k, pk_signedPreKeyId = 100,
     pk_signedPreKeyPublic = ''spk'', pk_signedPreKeySignature = ''sig'',
     pk_oneTimePreKeyId = Some otk, pk_oneTimePreKeyPublic = Some ''otk'',
     pk_isUsed = False, pk_createdAt = 1\<rparr>"

text \<open>Alice, registered with a pool of one one-time pre-key.\<close>

definition db_one_prekey :: db where
  "db_one_prekey = empty_db\<lparr>users := [demo_user ''alice''],
     prekeys := [demo_prekey 1 ''alice'' 7], prekeys_seq := 1\<rparr>"

text \<open>Alice owns group 1, whose queue holds one row.\<close>

definition db_group_row :: db where
  "db_group_row = empty_db\<lparr>
     users := [demo_user ''alice''],
     groups := [\<lparr>g_groupId = 1, g_name = ''g'', g_createdAt = 1, g_createdByUserId = ''alice''\<rparr>],
     groups_seq := 1,
     groupMembers := [\<lparr>gm_groupId = 1, gm_userId = ''alice'', gm_role = Owner, gm_joinedAt = 1\<rparr>],
     groupMessageQueue := [\<lparr>gq_queuedMsgId = 1, gq_groupId = 1, gq_fromUserId = ''alice'',
        gq_ciphertext = ''c'', gq_header = ''h'', gq_clientMsgId = ''m-01'', gq_createdAt = 5\<rparr>],
     groupMessageQueue_seq := 1\<rparr>"

text \<open>Alice and Bob, registered; nothing queued.\<close>

definition db_two_users :: db where
  "db_two_users = empty_db\<lparr>users := [demo_user ''alice'', demo_user ''bob'']\<rparr>"

text \<open>Bob's queue holds two messages of Alice with the same \<open>createdAt\<close>.\<close>

definition db_same_time :: db where
  "db_same_time = db_two_users\<lparr>
     messageQueue := [new_message 1 ''bob'' ''alice'' ''c1'' ''h'' ''m-01'' 5,
                      new_message 2 ''bob'' ''alice'' ''c2'' ''h'' ''m-02'' 5],
     messageQueue_seq := 2\<rparr>"


text \<open>
  A \<open>registerBundle\<close> request of Alice whose two one-time pre-keys carry the same key
  id, and the database it leaves when served on the empty one; and Alice with two
  pre-keys of different key ids.
\<close>

definition demo_spk :: signed_pre_key where
  "demo_spk = \<lparr>spk_keyId = 100, spk_publicKey = ''spk'', spk_signature = ''sig''\<rparr>"

definition register_dup_keyIds :: request where
  "register_dup_keyIds =
     IdentityRegisterBundle
       (demo_sign ''alice'' ''nonce-000001'' ''identity.registerBundle''
          (registerBundle_payload ''signal-alice'' 1 demo_spk
             [\<lparr>otk_keyId = 7, otk_publicKey = ''otk-a''\<rparr>,
              \<lparr>otk_keyId = 7, otk_publicKey = ''otk-b''\<rparr>]))
       ''signal-alice'' 1 demo_spk
       [\<lparr>otk_keyId = 7, otk_publicKey = ''otk-a''\<rparr>, \<lparr>otk_keyId = 7, otk_publicKey = ''otk-b''\<rparr>]"

definition db_dup_keyIds :: db where
  "db_dup_keyIds = empty_db\<lparr>
     users := [demo_user ''alice''],
     prekeys := [(demo_prekey 1 ''alice'' 7)\<lparr>pk_oneTimePreKeyPublic := Some ''otk-a''\<rparr>,
                 (demo_prekey 2 ''alice'' 7)\<lparr>pk_oneTimePreKeyPublic := Some ''otk-b''\<rparr>],
     prekeys_seq := 2,
     authNonces := [\<lparr>an_nonce = ''nonce-000001'', an_userId = ''alice'', an_createdAt = 1\<rparr>]\<rparr>"

definition db_two_prekeys :: db where
  "db_two_prekeys = empty_db\<lparr>users := [demo_user ''alice''],
     prekeys := [demo_prekey 1 ''alice'' 7, demo_prekey 2 ''alice'' 8], prekeys_seq := 2\<rparr>"

text \<open>
  A comparator that honours one canonical equivalence of Unicode, as ECMA-262 requires
  \<open>localeCompare\<close> to honour them all: it compares by code units after replacing the
  precomposed U+00E9 (bytes C3 A9) by its decomposition U+0065 U+0301 (bytes 65 CC 81).
  Then two payloads whose two keys are these two spellings, in either order, and a
  payload with a nested object in the key order of the sender and of the receiver.
\<close>

fun decompose :: "string \<Rightarrow> string" where
  "decompose (c # d # cs) =
     (if c = CHR 0xC3 \<and> d = CHR 0xA9 then CHR 0x65 # CHR 0xCC # CHR 0x81 # decompose cs
      else c # decompose (d # cs))"
| "decompose cs = cs"

definition canonicalCompare :: "string \<Rightarrow> string \<Rightarrow> int" where
  "canonicalCompare a b = codeUnitCompare (decompose a) (decompose b)"





section \<open>Key bundles\<close>

text \<open>
  C4, as the code has it. When the user is registered and the pool holds exactly one
  unused row, carrying a one-time pre-key, the first \<open>identity.getBundle\<close> returns the
  signed pre-key together with that one-time pre-key, and the second one fails with
  \<open>NOT_FOUND\<close> (no prekey bundle): the signed pre-key is stored on the pre-key rows, and
  no unused row is left to read it from.
\<close>

theorem getBundle_twice_one_prekey:
  assumes "find (\<lambda>u. u_userId u = uid) (users s) = Some identity"
    and "filter (\<lambda>r. pk_userId r = uid \<and> \<not> pk_isUsed r) (prekeys s) = [r]"
    and "pk_oneTimePreKeyId r = Some k"
    and "pk_oneTimePreKeyPublic r = Some p"
  shows "fst (identity_getBundle uid s) =
           Inr (Bundle \<lparr>b_registrationId = u_registrationId identity,
                  b_signalIdentityPublicKey = u_signalIdentityPublicKey identity,
                  b_signedPreKey = \<lparr>spk_keyId = pk_signedPreKeyId r,
                     spk_publicKey = pk_signedPreKeyPublic r,
                     spk_signature = pk_signedPreKeySignature r\<rparr>,
                  b_oneTimePreKey = Some \<lparr>otk_keyId = k, otk_publicKey = p\<rparr>\<rparr>)
         \<and> fst (identity_getBundle uid (snd (identity_getBundle uid s))) =
           Inl (NOT_FOUND ''no prekey bundle'')"
proof -
  let ?s1 = "mark_used (pk_id r) s"
  have first: "identity_getBundle uid s =
           (Inr (Bundle \<lparr>b_registrationId = u_registrationId identity,
                   b_signalIdentityPublicKey = u_signalIdentityPublicKey identity,
                   b_signedPreKey = \<lparr>spk_keyId = pk_signedPreKeyId r,
                      spk_publicKey = pk_signedPreKeyPublic r,
                      spk_signature = pk_signedPreKeySignature r\<rparr>,
                   b_oneTimePreKey = Some \<lparr>otk_keyId = k, otk_publicKey = p\<rparr>\<rparr>), ?s1)"
    using assms by (simp add: identity_getBundle_def unused_prekeys_def)
  have "filter (\<lambda>x. pk_userId x = uid \<and> \<not> pk_isUsed x)
          (map (\<lambda>x. if pk_id x = pk_id r then x\<lparr>pk_isUsed := True\<rparr> else x) xs) = []"
    if "filter (\<lambda>r. pk_userId r = uid \<and> \<not> pk_isUsed r) xs = [r]
        \<or> filter (\<lambda>r. pk_userId r = uid \<and> \<not> pk_isUsed r) xs = []" for xs
    using that by (induction xs) (auto split: if_splits)
  then have "unused_prekeys ?s1 uid = []"
    using assms(2) by (simp add: unused_prekeys_def mark_used_def)
  moreover have "users ?s1 = users s"
    by (simp add: mark_used_def)
  ultimately have "identity_getBundle uid ?s1 = (Inl (NOT_FOUND ''no prekey bundle''), ?s1)"
    using assms(1) by (simp add: identity_getBundle_def)
  with first show ?thesis by simp
qed

theorem getBundle_twice_one_prekey_witness:
  "find (\<lambda>u. u_userId u = ''alice'') (users db_one_prekey) = Some (demo_user ''alice'')
   \<and> filter (\<lambda>r. pk_userId r = ''alice'' \<and> \<not> pk_isUsed r) (prekeys db_one_prekey)
       = [demo_prekey 1 ''alice'' 7]
   \<and> fst (identity_getBundle ''alice'' db_one_prekey) =
       Inr (Bundle \<lparr>b_registrationId = 1, b_signalIdentityPublicKey = ''signal-alice'',
              b_signedPreKey = \<lparr>spk_keyId = 100, spk_publicKey = ''spk'', spk_signature = ''sig''\<rparr>,
              b_oneTimePreKey = Some \<lparr>otk_keyId = 7, otk_publicKey = ''otk''\<rparr>\<rparr>)
   \<and> fst (identity_getBundle ''alice'' (snd (identity_getBundle ''alice'' db_one_prekey))) =
       Inl (NOT_FOUND ''no prekey bundle'')"
proof -
  have u: "find (\<lambda>u. u_userId u = ''alice'') (users db_one_prekey) = Some (demo_user ''alice'')"
    by (simp add: db_one_prekey_def empty_db_def demo_user_def)
  have p: "filter (\<lambda>r. pk_userId r = ''alice'' \<and> \<not> pk_isUsed r) (prekeys db_one_prekey)
             = [demo_prekey 1 ''alice'' 7]"
    by (simp add: db_one_prekey_def empty_db_def demo_prekey_def)
  show ?thesis
    using u p getBundle_twice_one_prekey [OF u p, of 7 "''otk''"]
    by (simp add: demo_prekey_def demo_user_def)
qed

text \<open>
  C4 as the claim states it fails: with a pool of one one-time pre-key, the second
  \<open>identity.getBundle\<close> does not return a bundle with \<open>oneTimePreKey: null\<close>; it
  fails.
\<close>

theorem getBundle_second_fetch_counterexample:
  "fst (identity_getBundle ''alice'' (snd (identity_getBundle ''alice'' db_one_prekey)))
     = Inl (NOT_FOUND ''no prekey bundle'')"
  by (simp add: identity_getBundle_def unused_prekeys_def mark_used_def db_one_prekey_def
      empty_db_def demo_user_def demo_prekey_def)

section \<open>Group queue acknowledgement\<close>

lemma group_ackDelete_queue_unchanged:
  "groupMessageQueue (snd (group_ackDelete rt now auth queuedMsgId s)) = groupMessageQueue s"
  by (auto simp: group_ackDelete_def requireAuth_def assertAuthenticated_def insert_authNonce_def
      split: prod.splits sum.splits option.splits if_splits)

text \<open>
  C6 at a concrete input. Alice is the owner of group 1, whose queue holds the row with
  \<open>queuedMsgId = 1\<close>. Her authenticated \<open>group.ackDelete\<close> of that row succeeds, and
  the row is still in \<open>group_message_queue\<close> afterwards: the procedure looks the row up
  and checks the membership, and issues no delete.
\<close>

theorem group_ackDelete_keeps_row:
  "group_ackDelete demo_runtime 10
     (demo_sign ''alice'' ''nonce-000001'' ''group.ackDelete'' [(''queuedMsgId'', JNum 1)])
     1 db_group_row
   = (Inr Ok, db_group_row\<lparr>authNonces :=
        [\<lparr>an_nonce = ''nonce-000001'', an_userId = ''alice'', an_createdAt = 10\<rparr>]\<rparr>)"
  by (simp add: group_ackDelete_def requireAuth_def assertAuthenticated_def demo_runtime_def
      demo_sign_def deriveUserId_def signed_string_def insert_authNonce_def nonce_used_def
      db_group_row_def empty_db_def member_of_def sort_entries_def number_str_def
      template_str_def demo_user_def)

section \<open>Replay prevention\<close>

lemma stableStringify_object: "stableStringify (localeCompare rt) (JObj payload) = Some (canonical rt payload)"
  by (simp add: canonical_def template_str_def)

lemma assertAuthenticated_fresh:
  assumes "envelope_ok rt procedure auth payload" and "\<not> nonce_used s (userId auth) (nonce auth)"
  shows "assertAuthenticated rt now procedure auth payload s = (Inr (userId auth), with_nonce now auth s)"
  using assms
  by (simp add: assertAuthenticated_def envelope_ok_def stableStringify_object insert_authNonce_def with_nonce_def
      del: stableStringify.simps)

lemma assertAuthenticated_replay:
  assumes "envelope_ok rt procedure auth payload" and "nonce_used s (userId auth) (nonce auth)"
  shows "assertAuthenticated rt now procedure auth payload s = (Inl ''replayed request'', s)"
  using assms
  by (simp add: assertAuthenticated_def envelope_ok_def stableStringify_object insert_authNonce_def
      del: stableStringify.simps)

lemma requireAuth_cases:
  "(\<exists>msg. requireAuth rt now procedure auth payload s = (Inl (UNAUTHORIZED msg), s))
   \<or> (requireAuth rt now procedure auth payload s = (Inr (userId auth), with_nonce now auth s))"
  by (simp add: requireAuth_def assertAuthenticated_def stableStringify_object insert_authNonce_def with_nonce_def
      del: stableStringify.simps split: sum.splits)


lemma authNonces_insert_message: "insert_message r s = (s', x) \<Longrightarrow> authNonces s' = authNonces s"
  by (auto simp: insert_message_def Let_def split: if_splits)

lemma authNonces_insert_gmessage: "insert_gmessage r s = (s', x) \<Longrightarrow> authNonces s' = authNonces s"
  by (auto simp: insert_gmessage_def Let_def split: if_splits)

lemma authNonces_insert_group: "insert_group r s = (s', x) \<Longrightarrow> authNonces s' = authNonces s"
  by (auto simp: insert_group_def Let_def split: if_splits)

lemma authNonces_insert_members: "insert_members rs s = Some s' \<Longrightarrow> authNonces s' = authNonces s"
  by (auto simp: insert_members_def split: if_splits)

lemma authNonces_insert_members_onConflictDoNothing:
  "insert_members_onConflictDoNothing rs s = Some s' \<Longrightarrow> authNonces s' = authNonces s"
  by (auto simp: insert_members_onConflictDoNothing_def split: if_splits)

lemma authNonces_insert_prekeys: "insert_prekeys rs s = Some s' \<Longrightarrow> authNonces s' = authNonces s"
  by (auto simp: insert_prekeys_def Let_def split: if_splits)

lemma authNonces_upsert_user: "upsert_user r s = Some s' \<Longrightarrow> authNonces s' = authNonces s"
  by (auto simp: upsert_user_def split: if_splits)


lemma authNonces_getBundle: "authNonces (snd (identity_getBundle uid s)) = authNonces s"
  by (simp add: identity_getBundle_def mark_used_def Let_def split: option.splits list.splits)

lemma registerBundle_nonces:
  assumes "requireAuth rt now ''identity.registerBundle'' a (registerBundle_payload sipk rid spk otks) s = (Inr uid, s')"
  shows "authNonces (snd (identity_registerBundle rt now a sipk rid spk otks s)) = authNonces s'"
  using assms
  by (auto simp: identity_registerBundle_def Let_def split: option.splits
        dest!: authNonces_insert_prekeys authNonces_upsert_user)

lemma send_nonces:
  assumes "requireAuth rt now ''message.send'' a (send_payload to c h cid t) s = (Inr uid, s')"
  shows "authNonces (snd (message_send rt now a to c h cid t s)) = authNonces s'"
  using assms
  by (auto simp: message_send_def split: prod.splits option.splits list.splits
        dest!: authNonces_insert_message)

lemma create_nonces:
  assumes "requireAuth rt now ''group.create'' a (create_payload name ids) s = (Inr uid, s')"
  shows "authNonces (snd (group_create rt now a name ids s)) = authNonces s'"
  using assms
  by (auto simp: group_create_def Let_def split: prod.splits option.splits list.splits
        dest!: authNonces_insert_group authNonces_insert_members)

lemma addMembers_nonces:
  assumes "requireAuth rt now ''group.addMembers'' a (addMembers_payload gid ids) s = (Inr uid, s')"
  shows "authNonces (snd (group_addMembers rt now a gid ids s)) = authNonces s'"
  using assms
  by (auto simp: group_addMembers_def split: option.splits
        dest!: authNonces_insert_members_onConflictDoNothing)

lemma post_nonces:
  assumes "requireAuth rt now ''group.post'' a (post_payload gid c h cid t) s = (Inr uid, s')"
  shows "authNonces (snd (group_post rt now a gid c h cid t s)) = authNonces s'"
  using assms
  by (auto simp: group_post_def split: prod.splits option.splits list.splits
        dest!: authNonces_insert_gmessage)


lemma appRouter_unauthorized:
  assumes "request_auth r = Some (p, a, pl)" and "requireAuth rt now p a pl s = (Inl e, s')"
  shows "appRouter rt now r s = (Inl e, s')"
proof (cases r)
  case (IdentityRegisterBundle auth sipk rid spk otks)
  then show ?thesis using assms by (simp add: identity_registerBundle_def)
next
  case (IdentityGetBundle uid)
  then show ?thesis using assms by simp
next
  case (MessageSend auth to c h cid t)
  then show ?thesis using assms by (simp add: message_send_def)
next
  case (MessagePoll auth since)
  then show ?thesis using assms by (simp add: message_poll_def)
next
  case (MessageAckDelete auth qid)
  then show ?thesis using assms by (simp add: message_ackDelete_def)
next
  case (GroupCreate auth name ids)
  then show ?thesis using assms by (simp add: group_create_def)
next
  case (GroupAddMembers auth gid ids)
  then show ?thesis using assms by (simp add: group_addMembers_def)
next
  case (GroupListMine auth)
  then show ?thesis using assms by (simp add: group_listMine_def)
next
  case (GroupGetMembers auth gid)
  then show ?thesis using assms by (simp add: group_getMembers_def)
next
  case (GroupPost auth gid c h cid t)
  then show ?thesis using assms by (simp add: group_post_def)
next
  case (GroupPoll auth gid since)
  then show ?thesis using assms by (simp add: group_poll_def)
next
  case (GroupAckDelete auth qid)
  then show ?thesis using assms by (simp add: group_ackDelete_def)
qed

lemma appRouter_authNonces:
  assumes "request_auth r = Some (p, a, pl)" and "requireAuth rt now p a pl s = (Inr uid, s')"
  shows "authNonces (snd (appRouter rt now r s)) = authNonces s'"
proof (cases r)
  case (IdentityRegisterBundle auth sipk rid spk otks)
  then show ?thesis using assms by (simp add: registerBundle_nonces)
next
  case (IdentityGetBundle uid)
  then show ?thesis using assms by simp
next
  case (MessageSend auth to c h cid t)
  then show ?thesis using assms by (simp add: send_nonces)
next
  case (MessagePoll auth since)
  then show ?thesis using assms by (simp add: message_poll_def)
next
  case (MessageAckDelete auth qid)
  then show ?thesis using assms by (simp add: message_ackDelete_def)
next
  case (GroupCreate auth name ids)
  then show ?thesis using assms by (simp add: create_nonces)
next
  case (GroupAddMembers auth gid ids)
  then show ?thesis using assms by (simp add: addMembers_nonces)
next
  case (GroupListMine auth)
  then show ?thesis using assms by (simp add: group_listMine_def)
next
  case (GroupGetMembers auth gid)
  then show ?thesis using assms by (simp add: group_getMembers_def split: option.splits)
next
  case (GroupPost auth gid c h cid t)
  then show ?thesis using assms by (simp add: post_nonces)
next
  case (GroupPoll auth gid since)
  then show ?thesis using assms by (simp add: group_poll_def split: option.splits)
next
  case (GroupAckDelete auth qid)
  then show ?thesis using assms by (simp add: group_ackDelete_def split: option.splits)
qed

lemma appRouter_nonce_used:
  assumes "nonce_used s u n"
  shows "nonce_used (snd (appRouter rt now r s)) u n"
proof (cases "request_auth r")
  case None
  then obtain uid where "r = IdentityGetBundle uid" by (cases r) auto
  then show ?thesis using assms by (simp add: nonce_used_def authNonces_getBundle)
next
  case (Some x)
  then obtain p a pl where ra: "request_auth r = Some (p, a, pl)" by (cases x) auto
  from requireAuth_cases [of rt now p a pl s] show ?thesis
  proof
    assume "\<exists>msg. requireAuth rt now p a pl s = (Inl (UNAUTHORIZED msg), s)"
    then show ?thesis using appRouter_unauthorized [OF ra] assms by auto
  next
    assume "requireAuth rt now p a pl s = (Inr (userId a), with_nonce now a s)"
    from appRouter_authNonces [OF ra this] show ?thesis
      using assms by (simp add: nonce_used_def with_nonce_def)
  qed
qed

lemma serve_nonce_used:
  "nonce_used s u n \<Longrightarrow> nonce_used (serve rt rs s) u n"
  by (induction rs arbitrary: s) (auto simp: appRouter_nonce_used)

text \<open>
  C2. A request with a valid envelope whose \<open>(userId, nonce)\<close> is not yet in the nonce
  table authenticates, and the pair is in the table afterwards. Whatever requests are
  served in between, any later request of an authenticated procedure that presents the
  same \<open>(userId, nonce)\<close> with a valid envelope (for another procedure or payload,
  signed anew) is answered \<open>UNAUTHORIZED\<close> (replayed request) and leaves the whole
  state as it was.
\<close>

theorem replay_rejected:
  assumes "request_auth r1 = Some (p1, a1, pl1)" and "envelope_ok rt p1 a1 pl1"
    and "\<not> nonce_used s (userId a1) (nonce a1)"
    and "request_auth r2 = Some (p2, a2, pl2)" and "envelope_ok rt p2 a2 pl2"
    and "userId a2 = userId a1" and "nonce a2 = nonce a1"
  shows "assertAuthenticated rt t1 p1 a1 pl1 s = (Inr (userId a1), with_nonce t1 a1 s)
       \<and> nonce_used (snd (appRouter rt t1 r1 s)) (userId a1) (nonce a1)
       \<and> appRouter rt t2 r2 (serve rt rs (snd (appRouter rt t1 r1 s)))
           = (Inl (UNAUTHORIZED ''replayed request''), serve rt rs (snd (appRouter rt t1 r1 s)))"
proof -
  let ?s1 = "snd (appRouter rt t1 r1 s)"
  let ?s2 = "serve rt rs ?s1"
  have first: "assertAuthenticated rt t1 p1 a1 pl1 s = (Inr (userId a1), with_nonce t1 a1 s)"
    using assms(2,3) by (rule assertAuthenticated_fresh)
  then have "requireAuth rt t1 p1 a1 pl1 s = (Inr (userId a1), with_nonce t1 a1 s)"
    by (simp add: requireAuth_def)
  from appRouter_authNonces [OF assms(1) this]
  have used1: "nonce_used ?s1 (userId a1) (nonce a1)"
    by (simp add: nonce_used_def with_nonce_def)
  then have "nonce_used ?s2 (userId a2) (nonce a2)"
    using assms(6,7) by (simp add: serve_nonce_used)
  with assms(5) have "requireAuth rt t2 p2 a2 pl2 ?s2 = (Inl (UNAUTHORIZED ''replayed request''), ?s2)"
    by (simp add: requireAuth_def assertAuthenticated_replay)
  from appRouter_unauthorized [OF assms(4) this] first used1 show ?thesis by simp
qed

theorem replay_rejected_witness:
  "request_auth (MessageSend (demo_sign ''alice'' ''nonce-000001'' ''message.send''
        (send_payload ''bob'' ''c'' ''h'' ''m-01'' 5)) ''bob'' ''c'' ''h'' ''m-01'' 5)
     = Some (''message.send'', demo_sign ''alice'' ''nonce-000001'' ''message.send''
        (send_payload ''bob'' ''c'' ''h'' ''m-01'' 5), send_payload ''bob'' ''c'' ''h'' ''m-01'' 5)
   \<and> envelope_ok demo_runtime ''message.send''
        (demo_sign ''alice'' ''nonce-000001'' ''message.send''
           (send_payload ''bob'' ''c'' ''h'' ''m-01'' 5))
        (send_payload ''bob'' ''c'' ''h'' ''m-01'' 5)
   \<and> \<not> nonce_used empty_db ''alice'' ''nonce-000001''
   \<and> envelope_ok demo_runtime ''message.poll''
        (demo_sign ''alice'' ''nonce-000001'' ''message.poll'' [(''since'', since_json None)])
        [(''since'', since_json None)]
   \<and> appRouter demo_runtime 20
        (MessagePoll (demo_sign ''alice'' ''nonce-000001'' ''message.poll''
           [(''since'', since_json None)]) None)
        (serve demo_runtime [(15, IdentityGetBundle ''bob'')]
           (snd (appRouter demo_runtime 10
              (MessageSend (demo_sign ''alice'' ''nonce-000001'' ''message.send''
                 (send_payload ''bob'' ''c'' ''h'' ''m-01'' 5)) ''bob'' ''c'' ''h'' ''m-01'' 5)
              empty_db)))
      = (Inl (UNAUTHORIZED ''replayed request''),
         serve demo_runtime [(15, IdentityGetBundle ''bob'')]
           (snd (appRouter demo_runtime 10
              (MessageSend (demo_sign ''alice'' ''nonce-000001'' ''message.send''
                 (send_payload ''bob'' ''c'' ''h'' ''m-01'' 5)) ''bob'' ''c'' ''h'' ''m-01'' 5)
              empty_db)))"
proof -
  let ?a1 = "demo_sign ''alice'' ''nonce-000001'' ''message.send''
               (send_payload ''bob'' ''c'' ''h'' ''m-01'' 5)"
  let ?a2 = "demo_sign ''alice'' ''nonce-000001'' ''message.poll'' [(''since'', since_json None)]"
  have r1: "request_auth (MessageSend ?a1 ''bob'' ''c'' ''h'' ''m-01'' 5)
              = Some (''message.send'', ?a1, send_payload ''bob'' ''c'' ''h'' ''m-01'' 5)"
    by simp
  have e1: "envelope_ok demo_runtime ''message.send'' ?a1 (send_payload ''bob'' ''c'' ''h'' ''m-01'' 5)"
    by (simp add: envelope_ok_def demo_runtime_def demo_sign_def deriveUserId_def
        signed_string_def canonical_def)
  have fresh: "\<not> nonce_used empty_db (userId ?a1) (nonce ?a1)"
    by (simp add: nonce_used_def empty_db_def)
  have r2: "request_auth (MessagePoll ?a2 None)
              = Some (''message.poll'', ?a2, [(''since'', since_json None)])"
    by simp
  have e2: "envelope_ok demo_runtime ''message.poll'' ?a2 [(''since'', since_json None)]"
    by (simp add: envelope_ok_def demo_runtime_def demo_sign_def deriveUserId_def
        signed_string_def canonical_def)
  have same: "userId ?a2 = userId ?a1" "nonce ?a2 = nonce ?a1"
    by (simp_all add: demo_sign_def)
  from replay_rejected [OF r1 e1 fresh r2 e2 same,
      of 10 20 "[(15, IdentityGetBundle ''bob'')]"] r1 e1 e2 fresh
  show ?thesis by (simp add: demo_sign_def)
qed

lemma user_exists_with_nonce: "user_exists (with_nonce now a s) uid = user_exists s uid"
  by (simp add: user_exists_def with_nonce_def)

lemma requireAuth_fresh:
  assumes "envelope_ok rt p a pl" and "\<not> nonce_used s (userId a) (nonce a)"
  shows "requireAuth rt now p a pl s = (Inr (userId a), with_nonce now a s)"
  using assms by (simp add: requireAuth_def assertAuthenticated_fresh)

lemma send_unregistered_target:
  assumes "envelope_ok rt ''message.send'' a (send_payload to c h cid ts)"
    and "\<not> nonce_used s (userId a) (nonce a)" and "\<not> user_exists s to"
  shows "message_send rt t a to c h cid ts s
           = (Inl (BAD_REQUEST ''target user not found''), with_nonce t a s)"
  using assms by (simp add: message_send_def requireAuth_fresh user_exists_with_nonce)

text \<open>
  C10. The nonce is recorded by authentication and stays recorded whatever the procedure
  body does afterwards. For every request of an authenticated procedure with a valid
  envelope and a fresh nonce, the pair \<open>(userId, nonce)\<close> is in the nonce table after
  the request, and the identical request submitted again is answered \<open>UNAUTHORIZED\<close>
  (replayed request) with the state unchanged. In particular a \<open>message.send\<close> to an
  unregistered \<open>toUserId\<close> is answered \<open>BAD_REQUEST\<close> the first time and
  \<open>UNAUTHORIZED\<close> the second time.
\<close>

theorem nonce_persists_after_rejection:
  assumes "request_auth r = Some (p, a, pl)" and "envelope_ok rt p a pl"
    and "\<not> nonce_used s (userId a) (nonce a)"
  shows "nonce_used (snd (appRouter rt t r s)) (userId a) (nonce a)
       \<and> appRouter rt t' r (snd (appRouter rt t r s))
           = (Inl (UNAUTHORIZED ''replayed request''), snd (appRouter rt t r s))
       \<and> (\<forall>to c h cid ts. r = MessageSend a to c h cid ts \<and> \<not> user_exists s to
            \<longrightarrow> fst (appRouter rt t r s) = Inl (BAD_REQUEST ''target user not found''))"
proof -
  let ?s1 = "snd (appRouter rt t r s)"
  have "requireAuth rt t p a pl s = (Inr (userId a), with_nonce t a s)"
    using assms(2,3) by (rule requireAuth_fresh)
  from appRouter_authNonces [OF assms(1) this]
  have used: "nonce_used ?s1 (userId a) (nonce a)"
    by (simp add: nonce_used_def with_nonce_def)
  with assms(2) have "requireAuth rt t' p a pl ?s1 = (Inl (UNAUTHORIZED ''replayed request''), ?s1)"
    by (simp add: requireAuth_def assertAuthenticated_replay)
  from appRouter_unauthorized [OF assms(1) this]
  have again: "appRouter rt t' r ?s1 = (Inl (UNAUTHORIZED ''replayed request''), ?s1)" .
  have "fst (appRouter rt t r s) = Inl (BAD_REQUEST ''target user not found'')"
    if "r = MessageSend a to c h cid ts" and "\<not> user_exists s to" for to c h cid ts
    using that assms by (simp add: send_unregistered_target)
  with used again show ?thesis by blast
qed

theorem nonce_persists_after_rejection_witness:
  "envelope_ok demo_runtime ''message.send''
      (demo_sign ''alice'' ''nonce-000002'' ''message.send'' (send_payload ''bob'' ''c'' ''h'' ''m-01'' 5))
      (send_payload ''bob'' ''c'' ''h'' ''m-01'' 5)
   \<and> \<not> nonce_used empty_db ''alice'' ''nonce-000002''
   \<and> \<not> user_exists empty_db ''bob''
   \<and> fst (appRouter demo_runtime 10
        (MessageSend (demo_sign ''alice'' ''nonce-000002'' ''message.send''
           (send_payload ''bob'' ''c'' ''h'' ''m-01'' 5)) ''bob'' ''c'' ''h'' ''m-01'' 5) empty_db)
       = Inl (BAD_REQUEST ''target user not found'')
   \<and> fst (appRouter demo_runtime 11
        (MessageSend (demo_sign ''alice'' ''nonce-000002'' ''message.send''
           (send_payload ''bob'' ''c'' ''h'' ''m-01'' 5)) ''bob'' ''c'' ''h'' ''m-01'' 5)
        (snd (appRouter demo_runtime 10
           (MessageSend (demo_sign ''alice'' ''nonce-000002'' ''message.send''
              (send_payload ''bob'' ''c'' ''h'' ''m-01'' 5)) ''bob'' ''c'' ''h'' ''m-01'' 5) empty_db)))
       = Inl (UNAUTHORIZED ''replayed request'')"
proof -
  let ?a = "demo_sign ''alice'' ''nonce-000002'' ''message.send''
              (send_payload ''bob'' ''c'' ''h'' ''m-01'' 5)"
  let ?r = "MessageSend ?a ''bob'' ''c'' ''h'' ''m-01'' 5"
  have r: "request_auth ?r = Some (''message.send'', ?a, send_payload ''bob'' ''c'' ''h'' ''m-01'' 5)"
    by simp
  have e: "envelope_ok demo_runtime ''message.send'' ?a (send_payload ''bob'' ''c'' ''h'' ''m-01'' 5)"
    by (simp add: envelope_ok_def demo_runtime_def demo_sign_def deriveUserId_def
        signed_string_def canonical_def)
  have fresh: "\<not> nonce_used empty_db (userId ?a) (nonce ?a)"
    by (simp add: nonce_used_def empty_db_def)
  have nobob: "\<not> user_exists empty_db ''bob''"
    by (simp add: user_exists_def empty_db_def)
  from nonce_persists_after_rejection [OF r e fresh, of 10 11] e fresh nobob
  show ?thesis by (simp add: demo_sign_def)
qed

section \<open>Direct message queue\<close>

lemma with_nonce_fields [simp]:
  "users (with_nonce t a s) = users s"
  "messageQueue (with_nonce t a s) = messageQueue s"
  "messageQueue_seq (with_nonce t a s) = messageQueue_seq s"
  "groups (with_nonce t a s) = groups s"
  "groups_seq (with_nonce t a s) = groups_seq s"
  "groupMembers (with_nonce t a s) = groupMembers s"
  "groupMessageQueue (with_nonce t a s) = groupMessageQueue s"
  "prekeys (with_nonce t a s) = prekeys s"
  by (simp_all add: with_nonce_def)





lemma message_send_new:
  assumes "envelope_ok rt ''message.send'' a (send_payload to c h cid ts)"
    and "\<not> nonce_used s (userId a) (nonce a)"
    and "user_exists s to" and "user_exists s (userId a)"
    and "message_ids_allocated s"
    and "\<not> message_conflict s to (userId a) cid"
  shows "message_send rt t a to c h cid ts s =
           (Inr (QueuedMsgId (messageQueue_seq s + 1)),
            (with_nonce t a s)\<lparr>messageQueue_seq := messageQueue_seq s + 1,
               messageQueue := messageQueue s @
                 [new_message (messageQueue_seq s + 1) to (userId a) c h cid ts]\<rparr>)"
proof -
  have "\<not> (\<exists>m \<in> set (messageQueue s). mq_queuedMsgId m = messageQueue_seq s + 1)"
    using assms(5) by (fastforce simp: message_ids_allocated_def)
  then show ?thesis
    using assms
    by (auto simp: message_send_def requireAuth_fresh user_exists_with_nonce insert_message_def
        message_conflict_def Let_def new_message_def)
qed



text \<open>
  C7, as the code has it. An authenticated \<open>message.poll\<close> with threshold \<open>since\<close>
  returns exactly the queued rows addressed to the caller whose \<open>createdAt\<close> is greater
  than the threshold (all the rows addressed to the caller when \<open>since\<close> is omitted),
  as a list in ascending, not necessarily strictly ascending, order of \<open>createdAt\<close>.
  For \<open>since = 0\<close> the code adds no condition (\<open>0\<close> is falsy); the rows are the same
  because every queued \<open>createdAt\<close> is positive, as \<open>messageSendSchema\<close> requires.
\<close>

theorem poll_since_ascending:
  assumes "envelope_ok rt ''message.poll'' a [(''since'', since_json since)]"
    and "\<not> nonce_used s (userId a) (nonce a)"
    and "since = Some 0 \<longrightarrow> (\<forall>m \<in> set (messageQueue s). 0 < mq_createdAt m)"
  shows "\<exists>ms. fst (message_poll rt t a since s) = Inr (Messages ms)
           \<and> mset ms = filter_mset (addressed_after (userId a) since) (mset (messageQueue s))
           \<and> sorted (map mq_createdAt ms)"
proof -
  let ?ms = "sort_key mq_createdAt
      (filter (\<lambda>m. mq_toUserId m = userId a \<and> since_condition since (mq_createdAt m))
         (messageQueue s))"
  have res: "fst (message_poll rt t a since s) = Inr (Messages ?ms)"
    using assms(1,2) by (simp add: message_poll_def requireAuth_fresh)
  have "(mq_toUserId m = userId a \<and> since_condition since (mq_createdAt m))
          = addressed_after (userId a) since m" if "m \<in> set (messageQueue s)" for m
    using that assms(3)
    by (auto simp: since_condition_def addressed_after_def split: option.splits)
  then have "filter (\<lambda>m. mq_toUserId m = userId a \<and> since_condition since (mq_createdAt m))
               (messageQueue s) = filter (addressed_after (userId a) since) (messageQueue s)"
    by (intro filter_cong) auto
  then have "mset ?ms = filter_mset (addressed_after (userId a) since) (mset (messageQueue s))"
    by simp
  moreover have "sorted (map mq_createdAt ?ms)"
    by simp
  ultimately show ?thesis using res by blast
qed

theorem poll_since_ascending_witness:
  "envelope_ok demo_runtime ''message.poll''
      (demo_sign ''bob'' ''nonce-000004'' ''message.poll'' [(''since'', since_json (Some 0))])
      [(''since'', since_json (Some 0))]
   \<and> \<not> nonce_used db_same_time ''bob'' ''nonce-000004''
   \<and> list_all (\<lambda>m. 0 < mq_createdAt m) (messageQueue db_same_time)
   \<and> (\<exists>ms. fst (message_poll demo_runtime 20
          (demo_sign ''bob'' ''nonce-000004'' ''message.poll'' [(''since'', since_json (Some 0))])
          (Some 0) db_same_time) = Inr (Messages ms)
        \<and> mset ms = filter_mset (addressed_after ''bob'' (Some 0)) (mset (messageQueue db_same_time))
        \<and> sorted (map mq_createdAt ms))"
proof -
  let ?a = "demo_sign ''bob'' ''nonce-000004'' ''message.poll'' [(''since'', since_json (Some 0))]"
  have e: "envelope_ok demo_runtime ''message.poll'' ?a [(''since'', since_json (Some 0))]"
    by (simp add: envelope_ok_def demo_runtime_def demo_sign_def deriveUserId_def
        signed_string_def canonical_def)
  have fresh: "\<not> nonce_used db_same_time (userId ?a) (nonce ?a)"
    by (simp add: nonce_used_def db_same_time_def db_two_users_def empty_db_def)
  have pos: "Some (0::int) = Some 0 \<longrightarrow> (\<forall>m \<in> set (messageQueue db_same_time). 0 < mq_createdAt m)"
    by (simp add: db_same_time_def new_message_def)
  from poll_since_ascending [OF e fresh pos, of 20] e fresh pos
  show ?thesis by (simp add: demo_sign_def list_all_iff)
qed

text \<open>
  Two \<open>message.send\<close> calls of Alice with the same \<open>createdAt\<close> leave, the recorded
  nonces apart, the database \<open>db_same_time\<close>.
\<close>

lemma db_same_time_reached:
  "serve demo_runtime
     [(10, MessageSend (demo_sign ''alice'' ''nonce-000001'' ''message.send''
              (send_payload ''bob'' ''c1'' ''h'' ''m-01'' 5)) ''bob'' ''c1'' ''h'' ''m-01'' 5),
      (11, MessageSend (demo_sign ''alice'' ''nonce-000002'' ''message.send''
              (send_payload ''bob'' ''c2'' ''h'' ''m-02'' 5)) ''bob'' ''c2'' ''h'' ''m-02'' 5)]
     db_two_users
   = db_same_time\<lparr>authNonces :=
       [\<lparr>an_nonce = ''nonce-000001'', an_userId = ''alice'', an_createdAt = 10\<rparr>,
        \<lparr>an_nonce = ''nonce-000002'', an_userId = ''alice'', an_createdAt = 11\<rparr>]\<rparr>"
proof -
  let ?a1 = "demo_sign ''alice'' ''nonce-000001'' ''message.send''
               (send_payload ''bob'' ''c1'' ''h'' ''m-01'' 5)"
  let ?a2 = "demo_sign ''alice'' ''nonce-000002'' ''message.send''
               (send_payload ''bob'' ''c2'' ''h'' ''m-02'' 5)"
  let ?s1 = "db_two_users\<lparr>
     messageQueue := [new_message 1 ''bob'' ''alice'' ''c1'' ''h'' ''m-01'' 5],
     messageQueue_seq := 1,
     authNonces := [\<lparr>an_nonce = ''nonce-000001'', an_userId = ''alice'', an_createdAt = 10\<rparr>]\<rparr>"
  have u: "userId ?a1 = ''alice''" "nonce ?a1 = ''nonce-000001''"
    "userId ?a2 = ''alice''" "nonce ?a2 = ''nonce-000002''"
    by (simp_all add: demo_sign_def)
  have e1: "envelope_ok demo_runtime ''message.send'' ?a1 (send_payload ''bob'' ''c1'' ''h'' ''m-01'' 5)"
    and e2: "envelope_ok demo_runtime ''message.send'' ?a2 (send_payload ''bob'' ''c2'' ''h'' ''m-02'' 5)"
    by (simp_all add: envelope_ok_def demo_runtime_def demo_sign_def deriveUserId_def
        signed_string_def canonical_def)
  have first: "message_send demo_runtime 10 ?a1 ''bob'' ''c1'' ''h'' ''m-01'' 5 db_two_users
      = (Inr (QueuedMsgId 1), ?s1)"
  proof -
    have "\<not> nonce_used db_two_users (userId ?a1) (nonce ?a1)"
      "user_exists db_two_users ''bob''" "user_exists db_two_users (userId ?a1)"
      "message_ids_allocated db_two_users"
      "\<not> message_conflict db_two_users ''bob'' (userId ?a1) ''m-01''"
      by (simp_all add: u nonce_used_def user_exists_def message_ids_allocated_def
          message_conflict_def db_two_users_def empty_db_def demo_user_def)
    from message_send_new [OF e1 this, of 10] show ?thesis
      by (simp add: u with_nonce_def db_two_users_def empty_db_def)
  qed
  have second: "message_send demo_runtime 11 ?a2 ''bob'' ''c2'' ''h'' ''m-02'' 5 ?s1
      = (Inr (QueuedMsgId 2), db_same_time\<lparr>authNonces :=
       [\<lparr>an_nonce = ''nonce-000001'', an_userId = ''alice'', an_createdAt = 10\<rparr>,
        \<lparr>an_nonce = ''nonce-000002'', an_userId = ''alice'', an_createdAt = 11\<rparr>]\<rparr>)"
  proof -
    have "\<not> nonce_used ?s1 (userId ?a2) (nonce ?a2)"
      "user_exists ?s1 ''bob''" "user_exists ?s1 (userId ?a2)"
      "message_ids_allocated ?s1"
      "\<not> message_conflict ?s1 ''bob'' (userId ?a2) ''m-02''"
      by (simp_all add: u nonce_used_def user_exists_def message_ids_allocated_def
          message_conflict_def db_two_users_def empty_db_def demo_user_def new_message_def)
    from message_send_new [OF e2 this, of 11] show ?thesis
      by (simp add: u with_nonce_def db_same_time_def db_two_users_def empty_db_def)
  qed
  show ?thesis
    by (simp only: serve.simps appRouter.simps first second snd_conv)
qed

lemma poll_demo_envelope:
  "envelope_ok demo_runtime ''message.poll''
      (demo_sign ''bob'' ''nonce-000003'' ''message.poll'' [(''since'', since_json (Some 1))])
      [(''since'', since_json (Some 1))]"
  by (simp add: envelope_ok_def demo_runtime_def demo_sign_def deriveUserId_def
        signed_string_def canonical_def)

text \<open>
  C7 as the claim states it fails: the list is ordered by \<open>createdAt\<close>, which the
  senders choose, and two queued rows may carry the same value. Bob polls with
  \<open>since = 1\<close> and receives two rows whose \<open>createdAt\<close> are both 5: the list is not
  strictly ascending.
\<close>

theorem poll_not_strictly_ascending:
  "map mq_createdAt (polled (fst (message_poll demo_runtime 20
      (demo_sign ''bob'' ''nonce-000003'' ''message.poll'' [(''since'', since_json (Some 1))])
      (Some 1) db_same_time))) = [5, 5]"
proof -
  have "\<not> nonce_used db_same_time ''bob'' ''nonce-000003''"
    by (simp add: nonce_used_def db_same_time_def db_two_users_def empty_db_def)
  then have "requireAuth demo_runtime 20 ''message.poll''
      (demo_sign ''bob'' ''nonce-000003'' ''message.poll'' [(''since'', since_json (Some 1))])
      [(''since'', since_json (Some 1))] db_same_time
    = (Inr ''bob'', with_nonce 20
        (demo_sign ''bob'' ''nonce-000003'' ''message.poll'' [(''since'', since_json (Some 1))])
        db_same_time)"
    using requireAuth_fresh [OF poll_demo_envelope, of db_same_time 20]
    by (simp add: demo_sign_def)
  then show ?thesis
    by (simp add: message_poll_def polled_def db_same_time_def new_message_def
        since_condition_def)
qed

section \<open>Groups\<close>

lemma fold_set_insert:
  "set (fold (\<lambda>x acc. if x \<in> set acc then acc else acc @ [x]) xs acc) = set acc \<union> set xs"
  by (induction xs arbitrary: acc) auto

lemma fold_set_distinct:
  "distinct acc \<Longrightarrow> distinct (fold (\<lambda>x acc. if x \<in> set acc then acc else acc @ [x]) xs acc)"
  by (induction xs arbitrary: acc) auto

lemma set_array_from_set: "set (array_from_set xs) = set xs"
  by (simp add: array_from_set_def fold_set_insert)

lemma distinct_array_from_set: "distinct (array_from_set xs)"
  by (simp add: array_from_set_def fold_set_distinct)

lemma length_known_users:
  assumes "users_unique s"
  shows "length (known_users s ids) = card (set ids \<inter> u_userId ` set (users s))"
proof -
  let ?f = "filter (\<lambda>x. x \<in> set ids) (map u_userId (users s))"
  have eq: "map u_userId (known_users s ids) = ?f"
    by (simp add: known_users_def filter_map comp_def)
  have d: "distinct ?f"
    using assms by (simp add: users_unique_def)
  have "length (known_users s ids) = length (map u_userId (known_users s ids))"
    by simp
  also have "\<dots> = length ?f"
    by (simp only: eq)
  also have "\<dots> = card (set ?f)"
    using d by (simp only: distinct_card)
  also have "set ?f = set ids \<inter> u_userId ` set (users s)"
    by auto
  finally show ?thesis .
qed

lemma user_exists_image: "user_exists s uid = (uid \<in> u_userId ` set (users s))"
  by (auto simp: user_exists_def)

lemma known_users_all:
  assumes "users_unique s" and "distinct ids" and "\<forall>i \<in> set ids. user_exists s i"
  shows "length (known_users s ids) = length ids"
proof -
  have "set ids \<inter> u_userId ` set (users s) = set ids"
    using assms(3) by (auto simp: user_exists_image)
  then show ?thesis
    using assms(1,2) by (simp add: length_known_users distinct_card)
qed

lemma known_users_missing:
  assumes "users_unique s" and "\<exists>i \<in> set ids. \<not> user_exists s i"
  shows "length (known_users s ids) \<noteq> length ids"
proof -
  have "set ids \<inter> u_userId ` set (users s) \<subset> set ids"
    using assms(2) by (auto simp: user_exists_image)
  then have "card (set ids \<inter> u_userId ` set (users s)) < card (set ids)"
    by (intro psubset_card_mono) auto
  also have "\<dots> \<le> length ids"
    by (rule card_length)
  finally show ?thesis
    using assms(1) by (simp add: length_known_users)
qed

lemma known_users_with_nonce [simp]: "known_users (with_nonce t a s) ids = known_users s ids"
  by (simp add: known_users_def)

lemma group_create_unknown:
  assumes "envelope_ok rt ''group.create'' a (create_payload name L)"
    and "\<not> nonce_used s (userId a) (nonce a)"
    and "users_unique s"
    and "\<exists>i \<in> set (userId a # L). \<not> user_exists s i"
  shows "group_create rt t a name L s
           = (Inl (BAD_REQUEST ''unknown userId included''), with_nonce t a s)"
proof -
  have "\<exists>i \<in> set (array_from_set (userId a # L)). \<not> user_exists s i"
    using assms(4) by (simp only: set_array_from_set)
  then have "length (known_users s (array_from_set (userId a # L)))
               \<noteq> length (array_from_set (userId a # L))"
    using assms(3) by (intro known_users_missing)
  then show ?thesis
    using assms(1,2) by (simp add: group_create_def requireAuth_fresh Let_def)
qed

lemma group_create_ok:
  assumes "envelope_ok rt ''group.create'' a (create_payload name L)"
    and "\<not> nonce_used s (userId a) (nonce a)"
    and "users_unique s" and "groups_allocated s"
    and "\<forall>i \<in> set (userId a # L). user_exists s i"
  shows "group_create rt t a name L s
           = (Inr (GroupId (groups_seq s + 1)),
              (with_nonce t a s)\<lparr>groups_seq := groups_seq s + 1,
                 groups := groups s @ [\<lparr>g_groupId = groups_seq s + 1, g_name = name,
                                        g_createdAt = t, g_createdByUserId = userId a\<rparr>],
                 groupMembers := groupMembers s @
                   map (new_member (groups_seq s + 1) (userId a) t)
                     (array_from_set (userId a # L))\<rparr>)"
proof -
  let ?ids = "array_from_set (userId a # L)"
  let ?gid = "groups_seq s + 1"
  let ?s1 = "with_nonce t a s"
  let ?g = "\<lparr>g_groupId = ?gid, g_name = name, g_createdAt = t, g_createdByUserId = userId a\<rparr>"
  let ?s2 = "?s1\<lparr>groups_seq := ?gid, groups := groups s @ [?g]\<rparr>"
  let ?rows = "map (new_member ?gid (userId a) t) ?ids"
  have all: "\<forall>i \<in> set ?ids. user_exists s i"
    using assms(5) by (simp only: set_array_from_set)
  have len: "length (known_users s ?ids) = length ?ids"
    using assms(3) distinct_array_from_set all by (rule known_users_all)
  have nogroup: "\<not> group_exists s ?gid"
    using assms(4) by (fastforce simp: groups_allocated_def group_exists_def)
  have creator: "user_exists s (userId a)"
    using assms(5) by simp
  have ins_group: "insert_group \<lparr>g_groupId = 0, g_name = name, g_createdAt = t,
                      g_createdByUserId = userId a\<rparr> ?s1 = (?s2, Some [?gid])"
    using nogroup creator
    by (simp add: insert_group_def Let_def group_exists_def user_exists_def)
  have nz: "?gid \<noteq> 0"
    using assms(4) by (simp add: groups_allocated_def)
  have nonempty: "?rows \<noteq> []"
  proof -
    have "userId a \<in> set ?ids"
      by (simp add: set_array_from_set)
    then show ?thesis by auto
  qed
  have fk: "members_fk_ok ?s2 ?rows"
    using all by (auto simp: members_fk_ok_def group_exists_def user_exists_def new_member_def)
  have nomember: "\<not> (\<exists>r \<in> set ?rows. is_member (groupMembers ?s2) (gm_groupId r) (gm_userId r))"
    using assms(4) by (fastforce simp: is_member_def groups_allocated_def new_member_def)
  have dist: "distinct (map (\<lambda>r. (gm_groupId r, gm_userId r)) ?rows)"
    using distinct_array_from_set [of "userId a # L"]
    by (simp add: distinct_map comp_def new_member_def inj_on_def)
  have ins_members: "insert_members ?rows ?s2 = Some (?s2\<lparr>groupMembers := groupMembers s @ ?rows\<rparr>)"
    using nonempty fk nomember dist by (simp add: insert_members_def)
  have rows_eq: "map (\<lambda>memberUserId. \<lparr>gm_groupId = ?gid, gm_userId = memberUserId,
                     gm_role = (if memberUserId = userId a then Owner else Member),
                     gm_joinedAt = t\<rparr>) ?ids = ?rows"
    by (simp add: new_member_def [abs_def])
  show ?thesis
    using assms(1,2) len nz
    by (simp add: group_create_def requireAuth_fresh Let_def ins_group rows_eq ins_members)
qed


text \<open>
  C9. An authenticated \<open>group.create\<close> by creator \<open>C\<close> with member list \<open>L\<close>, in
  a state whose user ids are unique and whose group ids come from the sequence. When
  \<open>C\<close> and every id of \<open>L\<close> are registered, the call returns the new group id, adds
  the group row, and adds exactly the member rows of the ids of \<open>C # L\<close> without
  repetition (\<open>array_from_set\<close>: a duplicate-free list of the set \<open>{C} \<union> L\<close>), the
  row of \<open>C\<close> with role owner and every other row with role member. When some id
  is not registered, the call fails with \<open>BAD_REQUEST\<close> (unknown userId included) and
  neither a group row nor a member row is created.
\<close>

theorem group_create_members:
  assumes "envelope_ok rt ''group.create'' a (create_payload name L)"
    and "\<not> nonce_used s (userId a) (nonce a)"
    and "users_unique s" and "groups_allocated s"
  shows "((\<forall>i \<in> set (userId a # L). user_exists s i) \<longrightarrow>
            fst (group_create rt t a name L s) = Inr (GroupId (groups_seq s + 1))
          \<and> groups (snd (group_create rt t a name L s))
              = groups s @ [\<lparr>g_groupId = groups_seq s + 1, g_name = name, g_createdAt = t,
                              g_createdByUserId = userId a\<rparr>]
          \<and> groupMembers (snd (group_create rt t a name L s))
              = groupMembers s @ map (new_member (groups_seq s + 1) (userId a) t)
                                   (array_from_set (userId a # L))
          \<and> distinct (array_from_set (userId a # L))
          \<and> set (array_from_set (userId a # L)) = insert (userId a) (set L))
       \<and> ((\<exists>i \<in> set (userId a # L). \<not> user_exists s i) \<longrightarrow>
            fst (group_create rt t a name L s) = Inl (BAD_REQUEST ''unknown userId included'')
          \<and> groups (snd (group_create rt t a name L s)) = groups s
          \<and> groupMembers (snd (group_create rt t a name L s)) = groupMembers s)"
proof (intro conjI impI)
  assume all: "\<forall>i \<in> set (userId a # L). user_exists s i"
  note ok = group_create_ok [OF assms all, of t]
  show "fst (group_create rt t a name L s) = Inr (GroupId (groups_seq s + 1))"
    by (simp add: ok)
  show "groups (snd (group_create rt t a name L s))
          = groups s @ [\<lparr>g_groupId = groups_seq s + 1, g_name = name, g_createdAt = t,
                          g_createdByUserId = userId a\<rparr>]"
    by (simp add: ok)
  show "groupMembers (snd (group_create rt t a name L s))
          = groupMembers s @ map (new_member (groups_seq s + 1) (userId a) t)
                               (array_from_set (userId a # L))"
    by (simp add: ok)
  show "distinct (array_from_set (userId a # L))"
    by (rule distinct_array_from_set)
  show "set (array_from_set (userId a # L)) = insert (userId a) (set L)"
    by (simp add: set_array_from_set)
next
  assume missing: "\<exists>i \<in> set (userId a # L). \<not> user_exists s i"
  note bad = group_create_unknown [OF assms(1,2,3) missing, of t]
  show "fst (group_create rt t a name L s) = Inl (BAD_REQUEST ''unknown userId included'')"
    by (simp add: bad)
  show "groups (snd (group_create rt t a name L s)) = groups s"
    by (simp add: bad)
  show "groupMembers (snd (group_create rt t a name L s)) = groupMembers s"
    by (simp add: bad)
qed

theorem group_create_members_witness:
  "envelope_ok demo_runtime ''group.create''
      (demo_sign ''alice'' ''nonce-000001'' ''group.create''
         (create_payload ''team'' [''bob'', ''alice'', ''bob'']))
      (create_payload ''team'' [''bob'', ''alice'', ''bob''])
   \<and> \<not> nonce_used db_two_users ''alice'' ''nonce-000001''
   \<and> users_unique db_two_users \<and> groups_allocated db_two_users
   \<and> fst (group_create demo_runtime 10
        (demo_sign ''alice'' ''nonce-000001'' ''group.create''
           (create_payload ''team'' [''bob'', ''alice'', ''bob'']))
        ''team'' [''bob'', ''alice'', ''bob''] db_two_users) = Inr (GroupId 1)
   \<and> groupMembers (snd (group_create demo_runtime 10
        (demo_sign ''alice'' ''nonce-000001'' ''group.create''
           (create_payload ''team'' [''bob'', ''alice'', ''bob'']))
        ''team'' [''bob'', ''alice'', ''bob''] db_two_users))
      = [\<lparr>gm_groupId = 1, gm_userId = ''alice'', gm_role = Owner, gm_joinedAt = 10\<rparr>,
         \<lparr>gm_groupId = 1, gm_userId = ''bob'', gm_role = Member, gm_joinedAt = 10\<rparr>]"
proof -
  let ?L = "[''bob'', ''alice'', ''bob'']"
  let ?a = "demo_sign ''alice'' ''nonce-000001'' ''group.create'' (create_payload ''team'' ?L)"
  have e: "envelope_ok demo_runtime ''group.create'' ?a (create_payload ''team'' ?L)"
    by (simp add: envelope_ok_def demo_runtime_def demo_sign_def deriveUserId_def
        signed_string_def canonical_def)
  have fresh: "\<not> nonce_used db_two_users (userId ?a) (nonce ?a)"
    by (simp add: nonce_used_def db_two_users_def empty_db_def)
  have uu: "users_unique db_two_users"
    by (simp add: users_unique_def db_two_users_def empty_db_def demo_user_def)
  have ga: "groups_allocated db_two_users"
    by (simp add: groups_allocated_def db_two_users_def empty_db_def)
  have all: "\<forall>i \<in> set (userId ?a # ?L). user_exists db_two_users i"
    by (simp add: user_exists_def db_two_users_def empty_db_def demo_user_def demo_sign_def)
  have ids: "array_from_set [''alice'', ''bob'', ''alice'', ''bob''] = [''alice'', ''bob'']"
    by (simp add: array_from_set_def)
  have seq: "groups_seq db_two_users = 0" "groupMembers db_two_users = []"
    by (simp_all add: db_two_users_def empty_db_def)
  have u: "userId ?a = ''alice''" "nonce ?a = ''nonce-000001''"
    by (simp_all add: demo_sign_def)
  from group_create_members [OF e fresh uu ga, of 10] all e fresh uu ga
  show ?thesis
    by (simp add: ids seq u new_member_def)
qed



lemma member_of_with_nonce [simp]: "member_of (with_nonce t a s) g u = member_of s g u"
  by (simp add: member_of_def)








section \<open>One-time pre-keys\<close>

lemma key_list_simps [simp]:
  "key_list [] = []"
  "key_list (r # rs) = (case pk_oneTimePreKeyId r of None \<Rightarrow> [] | Some k \<Rightarrow> [k]) @ key_list rs"
  by (simp_all add: key_list_def)

lemma key_list_append [simp]: "key_list (xs @ ys) = key_list xs @ key_list ys"
  by (simp add: key_list_def)

lemma filter_marked:
  "filter (\<lambda>r. pk_userId r = uid \<and> \<not> pk_isUsed r)
     (map (\<lambda>r. if pk_id r = i then r\<lparr>pk_isUsed := True\<rparr> else r) xs)
   = filter (\<lambda>r. (pk_userId r = uid \<and> \<not> pk_isUsed r) \<and> pk_id r \<noteq> i) xs"
  by (induction xs) auto

lemma key_list_filter_subset:
  "set (key_list (filter (\<lambda>x. P x \<and> Q x) xs)) \<subseteq> set (key_list (filter P xs))"
  by (induction xs) (auto split: option.splits)

lemma key_list_filter_distinct:
  "distinct (key_list (filter P xs)) \<Longrightarrow> distinct (key_list (filter (\<lambda>x. P x \<and> Q x) xs))"
proof (induction xs)
  case Nil
  then show ?case by simp
next
  case (Cons x xs)
  then show ?case
    using key_list_filter_subset [of P Q xs]
    by (auto split: option.splits if_splits)
qed

lemma key_in_key_list:
  "r \<in> set xs \<Longrightarrow> P r \<Longrightarrow> pk_oneTimePreKeyId r = Some k \<Longrightarrow> k \<in> set (key_list (filter P xs))"
  by (induction xs) (auto split: option.splits)

lemma key_list_removed:
  assumes "distinct (key_list (filter P xs))" and "r \<in> set xs" and "P r"
    and "pk_oneTimePreKeyId r = Some k"
  shows "k \<notin> set (key_list (filter (\<lambda>x. P x \<and> pk_id x \<noteq> pk_id r) xs))"
  using assms
proof (induction xs)
  case Nil
  then show ?case by simp
next
  case (Cons x xs)
  show ?case
  proof (cases "x = r")
    case True
    have "k \<notin> set (key_list (filter P xs))"
      using Cons.prems True by (auto split: if_splits)
    then show ?thesis
      using True key_list_filter_subset [of P "\<lambda>x. pk_id x \<noteq> pk_id r" xs] by auto
  next
    case False
    then have r: "r \<in> set xs" using Cons.prems by simp
    have d: "distinct (key_list (filter P xs))"
      using Cons.prems(1) by (auto split: if_splits)
    from Cons.IH [OF d r Cons.prems(3,4)]
    have IH: "k \<notin> set (key_list (filter (\<lambda>x. P x \<and> pk_id x \<noteq> pk_id r) xs))" .
    have "k \<in> set (key_list (filter P xs))"
      using r Cons.prems(3,4) by (rule key_in_key_list)
    then have "pk_oneTimePreKeyId x \<noteq> Some k" if "P x"
      using Cons.prems(1) that by (auto split: if_splits)
    then show ?thesis using IH by (auto split: option.splits)
  qed
qed


lemma unused_keyIds_mark_used:
  "unused_keyIds (mark_used i s) uid
     = key_list (filter (\<lambda>r. (pk_userId r = uid \<and> \<not> pk_isUsed r) \<and> pk_id r \<noteq> i) (prekeys s))"
  by (simp add: unused_keyIds_def mark_used_def filter_marked)

lemma getBundle_state:
  "(snd (identity_getBundle u s) = s
      \<and> fetched_keyId u (IdentityGetBundle u) (fst (identity_getBundle u s)) = [])
   \<or> (\<exists>r \<in> set (prekeys s). pk_userId r = u \<and> \<not> pk_isUsed r
        \<and> snd (identity_getBundle u s) = mark_used (pk_id r) s
        \<and> fetched_keyId u (IdentityGetBundle u) (fst (identity_getBundle u s))
            = (case (pk_oneTimePreKeyId r, pk_oneTimePreKeyPublic r) of
                 (Some k, Some p) \<Rightarrow> [k] | _ \<Rightarrow> []))"
proof (cases "find (\<lambda>x. u_userId x = u) (users s)")
  case None
  then show ?thesis by (simp add: identity_getBundle_def)
next
  case (Some identity)
  show ?thesis
  proof (cases "unused_prekeys s u")
    case Nil
    then show ?thesis using Some by (simp add: identity_getBundle_def)
  next
    case (Cons prekey rest)
    have "prekey \<in> set (unused_prekeys s u)"
      using Cons by simp
    then have mem: "prekey \<in> set (prekeys s)" "pk_userId prekey = u" "\<not> pk_isUsed prekey"
      by (simp_all add: unused_prekeys_def)
    show ?thesis
    proof (cases "pk_oneTimePreKeyId prekey")
      case None
      then show ?thesis using Some Cons by (simp add: identity_getBundle_def)
    next
      case (Some k)
      then show ?thesis
        using \<open>find (\<lambda>x. u_userId x = u) (users s) = Some identity\<close> Cons mem
        by (auto simp: identity_getBundle_def split: option.splits intro!: bexI [of _ prekey])
    qed
  qed
qed

lemma fetched_keyId_other:
  "u \<noteq> uid \<Longrightarrow> fetched_keyId uid (IdentityGetBundle u) res = []"
  by (cases res; cases "projr res") auto


lemma getBundle_step:
  assumes "distinct (unused_keyIds s uid)"
  shows "distinct (unused_keyIds (snd (identity_getBundle u s)) uid)
       \<and> set (unused_keyIds (snd (identity_getBundle u s)) uid) \<subseteq> set (unused_keyIds s uid)
       \<and> distinct (fetched_keyId uid (IdentityGetBundle u) (fst (identity_getBundle u s)))
       \<and> set (fetched_keyId uid (IdentityGetBundle u) (fst (identity_getBundle u s)))
            \<subseteq> set (unused_keyIds s uid)
       \<and> set (fetched_keyId uid (IdentityGetBundle u) (fst (identity_getBundle u s)))
            \<inter> set (unused_keyIds (snd (identity_getBundle u s)) uid) = {}"
proof -
  let ?P = "\<lambda>r. pk_userId r = uid \<and> \<not> pk_isUsed r"
  let ?f = "fetched_keyId uid (IdentityGetBundle u) (fst (identity_getBundle u s))"
  from getBundle_state [of u s] show ?thesis
  proof (elim disjE conjE bexE)
    assume same: "snd (identity_getBundle u s) = s"
      and none: "fetched_keyId u (IdentityGetBundle u) (fst (identity_getBundle u s)) = []"
    have "?f = []"
      using none fetched_keyId_other [of u uid] by (cases "u = uid") auto
    then show ?thesis using assms same by simp
  next
    fix r
    assume r: "r \<in> set (prekeys s)" "pk_userId r = u" "\<not> pk_isUsed r"
      and marked: "snd (identity_getBundle u s) = mark_used (pk_id r) s"
      and f: "fetched_keyId u (IdentityGetBundle u) (fst (identity_getBundle u s))
            = (case (pk_oneTimePreKeyId r, pk_oneTimePreKeyPublic r) of
                 (Some k, Some p) \<Rightarrow> [k] | _ \<Rightarrow> [])"
    have K': "unused_keyIds (snd (identity_getBundle u s)) uid
        = key_list (filter (\<lambda>x. ?P x \<and> pk_id x \<noteq> pk_id r) (prekeys s))"
      by (simp add: marked unused_keyIds_mark_used)
    have d: "distinct (key_list (filter ?P (prekeys s)))"
      using assms by (simp add: unused_keyIds_def)
    have d': "distinct (unused_keyIds (snd (identity_getBundle u s)) uid)"
      unfolding K' using d by (rule key_list_filter_distinct)
    have sub: "set (unused_keyIds (snd (identity_getBundle u s)) uid) \<subseteq> set (unused_keyIds s uid)"
      unfolding K' unfolding unused_keyIds_def by (rule key_list_filter_subset)
    show ?thesis
    proof (cases "u = uid")
      case False
      then have "?f = []" by (simp add: fetched_keyId_other)
      then show ?thesis using d' sub by simp
    next
      case True
      show ?thesis
      proof (cases "?f = []")
        case True
        then show ?thesis using d' sub by simp
      next
        case False
        then obtain k where k: "pk_oneTimePreKeyId r = Some k" "?f = [k]"
          using f \<open>u = uid\<close> by (auto split: option.splits)
        have Pr: "?P r" using r \<open>u = uid\<close> by simp
        have "k \<in> set (unused_keyIds s uid)"
          unfolding unused_keyIds_def using r(1) Pr k(1) by (rule key_in_key_list)
        moreover have "k \<notin> set (unused_keyIds (snd (identity_getBundle u s)) uid)"
          unfolding K' using d r(1) Pr k(1) by (rule key_list_removed)
        ultimately show ?thesis using d' sub k(2) by simp
      qed
    qed
  qed
qed

lemma prekeys_insert_message: "insert_message r s = (s', x) \<Longrightarrow> prekeys s' = prekeys s"
  by (auto simp: insert_message_def Let_def split: if_splits)

lemma prekeys_insert_gmessage: "insert_gmessage r s = (s', x) \<Longrightarrow> prekeys s' = prekeys s"
  by (auto simp: insert_gmessage_def Let_def split: if_splits)

lemma prekeys_insert_group: "insert_group r s = (s', x) \<Longrightarrow> prekeys s' = prekeys s"
  by (auto simp: insert_group_def Let_def split: if_splits)

lemma prekeys_insert_members: "insert_members rs s = Some s' \<Longrightarrow> prekeys s' = prekeys s"
  by (auto simp: insert_members_def split: if_splits)

lemma prekeys_insert_members_onConflictDoNothing:
  "insert_members_onConflictDoNothing rs s = Some s' \<Longrightarrow> prekeys s' = prekeys s"
  by (auto simp: insert_members_onConflictDoNothing_def split: if_splits)

lemma prekeys_requireAuth: "prekeys (snd (requireAuth rt now p a pl s)) = prekeys s"
  using requireAuth_cases [of rt now p a pl s] by auto

lemma send_prekeys: "prekeys (snd (message_send rt now a to c h cid t s)) = prekeys s"
  using requireAuth_cases [of rt now "''message.send''" a "send_payload to c h cid t" s]
  by (auto simp: message_send_def split: prod.splits option.splits list.splits
      dest!: prekeys_insert_message)

lemma create_prekeys: "prekeys (snd (group_create rt now a name ids s)) = prekeys s"
  using requireAuth_cases [of rt now "''group.create''" a "create_payload name ids" s]
  by (auto simp: group_create_def Let_def split: prod.splits option.splits list.splits
      dest!: prekeys_insert_group prekeys_insert_members)

lemma addMembers_prekeys: "prekeys (snd (group_addMembers rt now a gid ids s)) = prekeys s"
  using requireAuth_cases [of rt now "''group.addMembers''" a "addMembers_payload gid ids" s]
  by (auto simp: group_addMembers_def split: option.splits
      dest!: prekeys_insert_members_onConflictDoNothing)

lemma post_prekeys: "prekeys (snd (group_post rt now a gid c h cid t s)) = prekeys s"
  using requireAuth_cases [of rt now "''group.post''" a "post_payload gid c h cid t" s]
  by (auto simp: group_post_def split: prod.splits option.splits list.splits
      dest!: prekeys_insert_gmessage)

lemma poll_prekeys: "prekeys (snd (message_poll rt now a since s)) = prekeys s"
  using requireAuth_cases [of rt now "''message.poll''" a "[(''since'', since_json since)]" s]
  by (auto simp: message_poll_def)

lemma ackDelete_prekeys: "prekeys (snd (message_ackDelete rt now a qid s)) = prekeys s"
  using requireAuth_cases [of rt now "''message.ackDelete''" a "[(''queuedMsgId'', JNum qid)]" s]
  by (auto simp: message_ackDelete_def)

lemma listMine_prekeys: "prekeys (snd (group_listMine rt now a s)) = prekeys s"
  using requireAuth_cases [of rt now "''group.listMine''" a "[]" s]
  by (auto simp: group_listMine_def)

lemma getMembers_prekeys: "prekeys (snd (group_getMembers rt now a gid s)) = prekeys s"
  using requireAuth_cases [of rt now "''group.getMembers''" a "[(''groupId'', JNum gid)]" s]
  by (auto simp: group_getMembers_def split: option.splits)

lemma gpoll_prekeys: "prekeys (snd (group_poll rt now a gid since s)) = prekeys s"
  using requireAuth_cases [of rt now "''group.poll''" a
      "[(''groupId'', JNum gid), (''since'', since_json since)]" s]
  by (auto simp: group_poll_def split: option.splits)

lemma gackDelete_prekeys: "prekeys (snd (group_ackDelete rt now a qid s)) = prekeys s"
  using requireAuth_cases [of rt now "''group.ackDelete''" a "[(''queuedMsgId'', JNum qid)]" s]
  by (auto simp: group_ackDelete_def split: option.splits)


lemma prekeys_upsert_user: "upsert_user r s = Some s' \<Longrightarrow> prekeys s' = prekeys s"
  by (auto simp: upsert_user_def split: if_splits)

lemma number_prekeys_userId:
  "r \<in> set (number_prekeys n rs) \<Longrightarrow> pk_userId r \<in> pk_userId ` set rs"
  by (induction rs arbitrary: n) auto

lemma filter_numbered_other:
  assumes "\<forall>r \<in> set rs. pk_userId r \<noteq> uid"
  shows "filter (\<lambda>r. pk_userId r = uid \<and> \<not> pk_isUsed r) (number_prekeys n rs) = []"
  using assms by (fastforce simp: filter_empty_conv dest: number_prekeys_userId)

lemma insert_prekeys_other:
  assumes "insert_prekeys rs s = Some s'" and "\<forall>r \<in> set rs. pk_userId r \<noteq> uid"
  shows "unused_keyIds s' uid = unused_keyIds s uid"
  using assms filter_numbered_other [OF assms(2), of "prekeys_seq s"]
  by (auto simp: insert_prekeys_def Let_def unused_keyIds_def split: if_splits)

lemma unused_keyIds_delete_other:
  assumes "u \<noteq> uid"
  shows "unused_keyIds (s\<lparr>prekeys := filter (\<lambda>r. pk_userId r \<noteq> u) (prekeys s)\<rparr>) uid
           = unused_keyIds s uid"
proof -
  have "filter (\<lambda>r. pk_userId r = uid \<and> \<not> pk_isUsed r) (filter (\<lambda>r. pk_userId r \<noteq> u) xs)
      = filter (\<lambda>r. pk_userId r = uid \<and> \<not> pk_isUsed r) xs" for xs :: "prekey_row list"
    using assms by (induction xs) auto
  then show ?thesis by (simp add: unused_keyIds_def del: filter_filter)
qed

lemma unused_keyIds_cong: "prekeys s' = prekeys s \<Longrightarrow> unused_keyIds s' uid = unused_keyIds s uid"
  by (simp add: unused_keyIds_def)

lemma registerBundle_other:
  assumes "userId a \<noteq> uid"
  shows "unused_keyIds (snd (identity_registerBundle rt now a sipk rid spk otks s)) uid
           = unused_keyIds s uid"
proof -
  let ?pl = "registerBundle_payload sipk rid spk otks"
  from requireAuth_cases [of rt now "''identity.registerBundle''" a ?pl s] show ?thesis
  proof (elim disjE exE)
    fix msg
    assume "requireAuth rt now ''identity.registerBundle'' a ?pl s = (Inl (UNAUTHORIZED msg), s)"
    then show ?thesis by (simp add: identity_registerBundle_def)
  next
    assume auth: "requireAuth rt now ''identity.registerBundle'' a ?pl s
                    = (Inr (userId a), with_nonce now a s)"
    let ?s1 = "with_nonce now a s"
    have K1: "unused_keyIds ?s1 uid = unused_keyIds s uid"
      by (simp add: unused_keyIds_def)
    show ?thesis
    proof (cases "upsert_user \<lparr>u_userId = userId a, u_identityPublicKey = identityPublicKey a,
                     u_signalIdentityPublicKey = sipk, u_registrationId = rid,
                     u_createdAt = now\<rparr> ?s1")
      case None
      then show ?thesis using auth K1 by (simp add: identity_registerBundle_def)
    next
      case (Some s2)
      let ?s3 = "s2\<lparr>prekeys := filter (\<lambda>r. pk_userId r \<noteq> userId a) (prekeys s2)\<rparr>"
      let ?rows = "map (\<lambda>item. \<lparr>pk_id = 0, pk_userId = userId a,
                        pk_signedPreKeyId = spk_keyId spk,
                        pk_signedPreKeyPublic = spk_publicKey spk,
                        pk_signedPreKeySignature = spk_signature spk,
                        pk_oneTimePreKeyId = Some (otk_keyId item),
                        pk_oneTimePreKeyPublic = Some (otk_publicKey item),
                        pk_isUsed = False, pk_createdAt = now\<rparr>) otks"
      have K2: "unused_keyIds s2 uid = unused_keyIds s uid"
        using prekeys_upsert_user [OF Some] K1 by (simp add: unused_keyIds_def)
      have K3: "unused_keyIds ?s3 uid = unused_keyIds s uid"
        using unused_keyIds_delete_other [OF assms, of s2] K2 by simp
      have other: "\<forall>r \<in> set ?rows. pk_userId r \<noteq> uid"
        using assms by simp
      show ?thesis
      proof (cases "insert_prekeys ?rows ?s3")
        case None
        then show ?thesis
          using auth Some K3 by (simp add: identity_registerBundle_def Let_def)
      next
        case (Some s4)
        from insert_prekeys_other [OF Some other] K3
        have "unused_keyIds s4 uid = unused_keyIds s uid" by simp
        then show ?thesis
          using auth \<open>upsert_user _ ?s1 = Some s2\<close> Some
          by (simp add: identity_registerBundle_def Let_def)
      qed
    qed
  qed
qed

lemma fetched_keyId_not_getBundle:
  "(\<And>u. r \<noteq> IdentityGetBundle u) \<Longrightarrow> fetched_keyId uid r res = []"
  by (cases r) auto

lemma appRouter_step:
  assumes "\<not> registers uid r" and "distinct (unused_keyIds s uid)"
  shows "distinct (unused_keyIds (snd (appRouter rt now r s)) uid)
       \<and> set (unused_keyIds (snd (appRouter rt now r s)) uid) \<subseteq> set (unused_keyIds s uid)
       \<and> distinct (fetched_keyId uid r (fst (appRouter rt now r s)))
       \<and> set (fetched_keyId uid r (fst (appRouter rt now r s))) \<subseteq> set (unused_keyIds s uid)
       \<and> set (fetched_keyId uid r (fst (appRouter rt now r s)))
            \<inter> set (unused_keyIds (snd (appRouter rt now r s)) uid) = {}"
proof (cases r)
  case (IdentityGetBundle u)
  then show ?thesis using getBundle_step [OF assms(2), of u] by simp
next
  case (IdentityRegisterBundle auth sipk rid spk otks)
  then have "userId auth \<noteq> uid" using assms(1) by simp
  from registerBundle_other [OF this, of rt now sipk rid spk otks s]
  show ?thesis using IdentityRegisterBundle assms(2) by simp
next
  case (MessageSend auth to c h cid t)
  then show ?thesis
    using assms(2) unused_keyIds_cong [OF send_prekeys, of rt now auth to c h cid t s uid] by simp
next
  case (MessagePoll auth since)
  then show ?thesis
    using assms(2) unused_keyIds_cong [OF poll_prekeys, of rt now auth since s uid] by simp
next
  case (MessageAckDelete auth qid)
  then show ?thesis
    using assms(2) unused_keyIds_cong [OF ackDelete_prekeys, of rt now auth qid s uid] by simp
next
  case (GroupCreate auth name ids)
  then show ?thesis
    using assms(2) unused_keyIds_cong [OF create_prekeys, of rt now auth name ids s uid] by simp
next
  case (GroupAddMembers auth gid ids)
  then show ?thesis
    using assms(2) unused_keyIds_cong [OF addMembers_prekeys, of rt now auth gid ids s uid] by simp
next
  case (GroupListMine auth)
  then show ?thesis
    using assms(2) unused_keyIds_cong [OF listMine_prekeys, of rt now auth s uid] by simp
next
  case (GroupGetMembers auth gid)
  then show ?thesis
    using assms(2) unused_keyIds_cong [OF getMembers_prekeys, of rt now auth gid s uid] by simp
next
  case (GroupPost auth gid c h cid t)
  then show ?thesis
    using assms(2) unused_keyIds_cong [OF post_prekeys, of rt now auth gid c h cid t s uid] by simp
next
  case (GroupPoll auth gid since)
  then show ?thesis
    using assms(2) unused_keyIds_cong [OF gpoll_prekeys, of rt now auth gid since s uid] by simp
next
  case (GroupAckDelete auth qid)
  then show ?thesis
    using assms(2) unused_keyIds_cong [OF gackDelete_prekeys, of rt now auth qid s uid] by simp
qed

text \<open>
  C5, as the code has it. \<open>getBundle\<close> selects among the unused rows and marks the
  selected row used, so no row is handed out twice. The key ids are the client's: when
  the key ids of the user's unused pre-keys are pairwise distinct, then along any
  sequence of requests in which the user does not register a new bundle, the key ids
  that \<open>identity.getBundle\<close> returns for the user are pairwise distinct, and each is
  one of those key ids.
\<close>

theorem one_time_prekey_issued_once:
  assumes "distinct (unused_keyIds s uid)"
    and "\<forall>(now, r) \<in> set rs. \<not> registers uid r"
  shows "distinct (issued_keyIds rt uid rs s)
       \<and> set (issued_keyIds rt uid rs s) \<subseteq> set (unused_keyIds s uid)"
  using assms
proof (induction rs arbitrary: s)
  case Nil
  then show ?case by simp
next
  case (Cons x rs)
  obtain now r where x: "x = (now, r)" by (cases x)
  let ?s' = "snd (appRouter rt now r s)"
  let ?f = "fetched_keyId uid r (fst (appRouter rt now r s))"
  have nr: "\<not> registers uid r" using Cons.prems(2) x by simp
  from appRouter_step [OF nr Cons.prems(1), of rt now]
  have d': "distinct (unused_keyIds ?s' uid)"
    and sub: "set (unused_keyIds ?s' uid) \<subseteq> set (unused_keyIds s uid)"
    and df: "distinct ?f" and fsub: "set ?f \<subseteq> set (unused_keyIds s uid)"
    and disj: "set ?f \<inter> set (unused_keyIds ?s' uid) = {}"
    by simp_all
  have "\<forall>(now, r) \<in> set rs. \<not> registers uid r"
    using Cons.prems(2) by simp
  from Cons.IH [OF d' this]
  have IH: "distinct (issued_keyIds rt uid rs ?s')"
    "set (issued_keyIds rt uid rs ?s') \<subseteq> set (unused_keyIds ?s' uid)"
    by simp_all
  show ?case
    using IH df fsub disj sub by (auto simp: x)
qed

theorem one_time_prekey_issued_once_witness:
  "distinct (unused_keyIds db_two_prekeys ''alice'')
   \<and> list_all (\<lambda>(now, r). \<not> registers ''alice'' r)
        [(20, IdentityGetBundle ''alice''), (21, IdentityGetBundle ''alice''),
         (22, IdentityGetBundle ''alice'')]
   \<and> issued_keyIds demo_runtime ''alice''
        [(20, IdentityGetBundle ''alice''), (21, IdentityGetBundle ''alice''),
         (22, IdentityGetBundle ''alice'')] db_two_prekeys = [7, 8]
   \<and> distinct (issued_keyIds demo_runtime ''alice''
        [(20, IdentityGetBundle ''alice''), (21, IdentityGetBundle ''alice''),
         (22, IdentityGetBundle ''alice'')] db_two_prekeys)"
proof -
  let ?rs = "[(20, IdentityGetBundle ''alice''), (21, IdentityGetBundle ''alice''),
              (22, IdentityGetBundle ''alice'')]"
  have d: "distinct (unused_keyIds db_two_prekeys ''alice'')"
    by (simp add: unused_keyIds_def db_two_prekeys_def empty_db_def demo_prekey_def)
  have nr: "\<forall>(now, r) \<in> set ?rs. \<not> registers ''alice'' r"
    by simp
  have run: "issued_keyIds demo_runtime ''alice'' ?rs db_two_prekeys = [7, 8]"
    by (simp add: identity_getBundle_def unused_prekeys_def mark_used_def db_two_prekeys_def
        empty_db_def demo_user_def demo_prekey_def)
  from one_time_prekey_issued_once [OF d nr, of demo_runtime] d run
  show ?thesis by simp
qed

text \<open>
  C5 as the claim states it fails. \<open>registerBundle\<close> accepts a list of one-time
  pre-keys that repeats a key id (neither the schema nor the table asks for distinct
  ones); each of the two rows is then handed out once, and two successful
  \<open>identity.getBundle\<close> calls return the same key id 7.
\<close>

lemma register_dup_keyIds_accepted:
  "appRouter demo_runtime 1 register_dup_keyIds empty_db = (Inr Ok, db_dup_keyIds)"
proof -
  let ?otks = "[\<lparr>otk_keyId = 7, otk_publicKey = ''otk-a''\<rparr>, \<lparr>otk_keyId = 7, otk_publicKey = ''otk-b''\<rparr>]"
  let ?pl = "registerBundle_payload ''signal-alice'' 1 demo_spk ?otks"
  let ?a = "demo_sign ''alice'' ''nonce-000001'' ''identity.registerBundle'' ?pl"
  have e: "envelope_ok demo_runtime ''identity.registerBundle'' ?a ?pl"
    by (simp add: envelope_ok_def demo_runtime_def demo_sign_def deriveUserId_def
        signed_string_def canonical_def)
  have fresh: "\<not> nonce_used empty_db (userId ?a) (nonce ?a)"
    by (simp add: nonce_used_def empty_db_def)
  have auth: "requireAuth demo_runtime 1 ''identity.registerBundle'' ?a ?pl empty_db
      = (Inr (userId ?a), with_nonce 1 ?a empty_db)"
    using e fresh by (rule requireAuth_fresh)
  show ?thesis
    unfolding register_dup_keyIds_def appRouter.simps identity_registerBundle_def auth
    by (simp add: demo_sign_def with_nonce_def empty_db_def upsert_user_def user_exists_def
        insert_prekeys_def Let_def db_dup_keyIds_def demo_user_def demo_prekey_def demo_spk_def)
qed

theorem same_keyId_issued_twice:
  "issued_keyIds demo_runtime ''alice''
     [(20, IdentityGetBundle ''alice''), (21, IdentityGetBundle ''alice'')] db_dup_keyIds = [7, 7]"
  by (simp add: identity_getBundle_def unused_prekeys_def mark_used_def db_dup_keyIds_def
      empty_db_def demo_user_def demo_prekey_def)

section \<open>Canonical serialization and the order of keys\<close>




















lemma codeUnitCompare_le: "(codeUnitCompare a b \<le> 0) = (a \<le> b)"
  by (auto simp: codeUnitCompare_def)

lemma codeUnitCompare_less:
  "(codeUnitCompare a b < 0) = (a < b)" "(0 < codeUnitCompare a b) = (b < a)"
  by (auto simp: codeUnitCompare_def)





lemma comparators_agree_refl: "comparators_agree lc lc j"
  by (induction j rule: json.induct) (auto simp: agree_on_def)

lemma canonicalCompare_consistent: "consistent_comparator canonicalCompare"
  unfolding consistent_comparator_def canonicalCompare_def codeUnitCompare_le codeUnitCompare_less
  by (meson order_trans)




section \<open>The invariants hold in every reachable state\<close>

text \<open>
  The state invariants the theorems on \<open>message.send\<close>, \<open>group.create\<close> and
  \<open>group.addMembers\<close> assume hold in the empty database and are kept by every
  procedure, so they hold after any sequence of requests. The \<open>createdAt\<close> of the
  queued messages stay positive as long as \<open>message.send\<close> is given positive ones,
  which \<open>messageSendSchema\<close> requires.
\<close>

lemma schema_invariant_empty: "schema_invariant empty_db"
  by (simp add: schema_invariant_def users_unique_def message_ids_allocated_def
      groups_allocated_def empty_db_def)

lemma schema_invariant_with_nonce:
  "schema_invariant (with_nonce t a s) = schema_invariant s"
  by (simp add: schema_invariant_def users_unique_def message_ids_allocated_def
      groups_allocated_def)

lemma schema_invariant_frame:
  assumes "users s' = users s" and "messageQueue s' = messageQueue s"
    and "messageQueue_seq s' = messageQueue_seq s" and "groups s' = groups s"
    and "groups_seq s' = groups_seq s" and "groupMembers s' = groupMembers s"
  shows "schema_invariant s' = schema_invariant s"
  using assms
  by (simp add: schema_invariant_def users_unique_def message_ids_allocated_def
      groups_allocated_def)

lemma upsert_user_users:
  assumes "upsert_user r s = Some s'" and "users_unique s"
  shows "users_unique s'"
proof -
  let ?f = "\<lambda>u. if u_userId u = u_userId r
            then u\<lparr>u_identityPublicKey := u_identityPublicKey r,
                   u_signalIdentityPublicKey := u_signalIdentityPublicKey r,
                   u_registrationId := u_registrationId r\<rparr> else u"
  have same: "map u_userId (map ?f us) = map u_userId us" for us :: "user_row list"
    by (induction us) auto
  show ?thesis
  proof (cases "user_exists s (u_userId r)")
    case True
    then have "users s' = map ?f (users s)"
      using assms(1) by (auto simp: upsert_user_def split: if_splits)
    then have "map u_userId (users s') = map u_userId (users s)"
      by (simp only: same)
    then show ?thesis using assms(2) by (simp only: users_unique_def)
  next
    case False
    then have "users s' = users s @ [r]"
      using assms(1) by (auto simp: upsert_user_def split: if_splits)
    then show ?thesis
      using assms(2) False by (auto simp: users_unique_def user_exists_def)
  qed
qed

lemma upsert_user_invariant:
  assumes "upsert_user r s = Some s'" and "schema_invariant s"
  shows "schema_invariant s'"
proof -
  have "messageQueue s' = messageQueue s" "messageQueue_seq s' = messageQueue_seq s"
    "groups s' = groups s" "groups_seq s' = groups_seq s" "groupMembers s' = groupMembers s"
    using assms(1) by (auto simp: upsert_user_def split: if_splits)
  then show ?thesis
    using assms(2) upsert_user_users [OF assms(1)]
    by (simp add: schema_invariant_def message_ids_allocated_def groups_allocated_def)
qed

lemma insert_prekeys_invariant:
  "insert_prekeys rs s = Some s' \<Longrightarrow> schema_invariant s' = schema_invariant s"
  by (auto simp: insert_prekeys_def Let_def schema_invariant_def users_unique_def
      message_ids_allocated_def groups_allocated_def split: if_splits)

lemma insert_message_invariant:
  assumes "insert_message r s = (s', x)" and "schema_invariant s"
  shows "schema_invariant s'"
  using assms
  by (fastforce simp: insert_message_def Let_def schema_invariant_def users_unique_def
      message_ids_allocated_def groups_allocated_def split: if_splits)

lemma insert_gmessage_invariant:
  "insert_gmessage r s = (s', x) \<Longrightarrow> schema_invariant s' = schema_invariant s"
  by (auto simp: insert_gmessage_def Let_def schema_invariant_def users_unique_def
      message_ids_allocated_def groups_allocated_def split: if_splits)

lemma insert_group_invariant:
  assumes "insert_group r s = (s', x)" and "schema_invariant s"
  shows "schema_invariant s'"
  using assms
  by (fastforce simp: insert_group_def Let_def schema_invariant_def users_unique_def
      message_ids_allocated_def groups_allocated_def split: if_splits)

lemma group_exists_allocated:
  "groups_allocated s \<Longrightarrow> group_exists s g \<Longrightarrow> g \<le> groups_seq s"
  by (auto simp: groups_allocated_def group_exists_def)

lemma insert_members_invariant:
  assumes "insert_members rs s = Some s'" and "schema_invariant s"
  shows "schema_invariant s'"
proof -
  have fk: "members_fk_ok s rs" and s': "s' = s\<lparr>groupMembers := groupMembers s @ rs\<rparr>"
    using assms(1) by (auto simp: insert_members_def split: if_splits)
  have "gm_groupId m \<le> groups_seq s" if "m \<in> set rs" for m
  proof -
    have "group_exists s (gm_groupId m)" using fk that by (simp add: members_fk_ok_def)
    then show ?thesis
      using assms(2) by (simp add: schema_invariant_def group_exists_allocated)
  qed
  then show ?thesis
    using assms(2) s'
    by (auto simp: schema_invariant_def users_unique_def message_ids_allocated_def
        groups_allocated_def)
qed

lemma set_add_member_rows: "set (add_member_rows ms rs) \<subseteq> set ms \<union> set rs"
proof (induction rs arbitrary: ms)
  case Nil
  then show ?case by simp
next
  case (Cons r rs)
  show ?case
    using Cons.IH [of ms] Cons.IH [of "ms @ [r]"] by auto
qed

lemma insert_members_onConflictDoNothing_invariant:
  assumes "insert_members_onConflictDoNothing rs s = Some s'" and "schema_invariant s"
  shows "schema_invariant s'"
proof -
  have fk: "members_fk_ok s rs" and s': "s' = s\<lparr>groupMembers := add_member_rows (groupMembers s) rs\<rparr>"
    using assms(1) by (auto simp: insert_members_onConflictDoNothing_def split: if_splits)
  have "gm_groupId m \<le> groups_seq s" if "m \<in> set (add_member_rows (groupMembers s) rs)" for m
  proof -
    from that set_add_member_rows [of "groupMembers s" rs]
    consider "m \<in> set (groupMembers s)" | "m \<in> set rs" by blast
    then show ?thesis
    proof cases
      case 1
      then show ?thesis using assms(2) by (simp add: schema_invariant_def groups_allocated_def)
    next
      case 2
      then have "group_exists s (gm_groupId m)" using fk by (simp add: members_fk_ok_def)
      then show ?thesis
        using assms(2) by (simp add: schema_invariant_def group_exists_allocated)
    qed
  qed
  then show ?thesis
    using assms(2) s'
    by (simp add: schema_invariant_def users_unique_def message_ids_allocated_def
        groups_allocated_def)
qed


lemma schema_invariant_prekeys:
  "schema_invariant (s\<lparr>prekeys := ps\<rparr>) = schema_invariant s"
  by (simp add: schema_invariant_def users_unique_def message_ids_allocated_def
      groups_allocated_def)

lemma schema_invariant_ackDelete:
  "schema_invariant s \<Longrightarrow> schema_invariant (s\<lparr>messageQueue := filter P (messageQueue s)\<rparr>)"
  by (simp add: schema_invariant_def users_unique_def message_ids_allocated_def
      groups_allocated_def)

lemma requireAuth_invariant:
  "requireAuth rt now p a pl s = (res, s') \<Longrightarrow> schema_invariant s' = schema_invariant s"
  using requireAuth_cases [of rt now p a pl s] by (auto simp: schema_invariant_with_nonce)

lemma registerBundle_invariant:
  assumes "schema_invariant s"
  shows "schema_invariant (snd (identity_registerBundle rt now a sipk rid spk otks s))"
proof -
  obtain res s1 where auth: "requireAuth rt now ''identity.registerBundle'' a
      (registerBundle_payload sipk rid spk otks) s = (res, s1)"
    by (cases "requireAuth rt now ''identity.registerBundle'' a
      (registerBundle_payload sipk rid spk otks) s")
  have inv1: "schema_invariant s1"
    using requireAuth_invariant [OF auth] assms by simp
  show ?thesis
    using inv1
    by (auto simp: identity_registerBundle_def auth Let_def schema_invariant_prekeys
        insert_prekeys_invariant
        split: sum.splits option.splits dest: upsert_user_invariant)
qed

lemma getBundle_invariant:
  "schema_invariant s \<Longrightarrow> schema_invariant (snd (identity_getBundle u s))"
  by (auto simp: identity_getBundle_def mark_used_def Let_def schema_invariant_prekeys
      split: option.splits list.splits)

lemma send_invariant:
  assumes "schema_invariant s"
  shows "schema_invariant (snd (message_send rt now a to c h cid t s))"
proof -
  obtain res s1 where auth: "requireAuth rt now ''message.send'' a
      (send_payload to c h cid t) s = (res, s1)"
    by (cases "requireAuth rt now ''message.send'' a (send_payload to c h cid t) s")
  have inv1: "schema_invariant s1"
    using requireAuth_invariant [OF auth] assms by simp
  show ?thesis
    using inv1
    by (auto simp: message_send_def auth
        split: sum.splits prod.splits option.splits list.splits
        dest: insert_message_invariant)
qed

lemma poll_invariant:
  assumes "schema_invariant s"
  shows "schema_invariant (snd (message_poll rt now a since s))"
proof -
  obtain res s1 where auth: "requireAuth rt now ''message.poll'' a
      [(''since'', since_json since)] s = (res, s1)"
    by (cases "requireAuth rt now ''message.poll'' a [(''since'', since_json since)] s")
  have inv1: "schema_invariant s1"
    using requireAuth_invariant [OF auth] assms by simp
  show ?thesis
    using inv1 by (auto simp: message_poll_def auth split: sum.splits)
qed

lemma ackDelete_invariant:
  assumes "schema_invariant s"
  shows "schema_invariant (snd (message_ackDelete rt now a qid s))"
proof -
  obtain res s1 where auth: "requireAuth rt now ''message.ackDelete'' a
      [(''queuedMsgId'', JNum qid)] s = (res, s1)"
    by (cases "requireAuth rt now ''message.ackDelete'' a [(''queuedMsgId'', JNum qid)] s")
  have inv1: "schema_invariant s1"
    using requireAuth_invariant [OF auth] assms by simp
  show ?thesis
    using inv1
    by (auto simp: message_ackDelete_def auth schema_invariant_ackDelete split: sum.splits)
qed

lemma create_invariant:
  assumes "schema_invariant s"
  shows "schema_invariant (snd (group_create rt now a name ids s))"
proof -
  obtain res s1 where auth: "requireAuth rt now ''group.create'' a
      (create_payload name ids) s = (res, s1)"
    by (cases "requireAuth rt now ''group.create'' a (create_payload name ids) s")
  have inv1: "schema_invariant s1"
    using requireAuth_invariant [OF auth] assms by simp
  show ?thesis
    using inv1
    by (auto simp: group_create_def auth Let_def
        split: sum.splits prod.splits option.splits list.splits
        dest: insert_group_invariant insert_members_invariant)
qed

lemma addMembers_invariant:
  assumes "schema_invariant s"
  shows "schema_invariant (snd (group_addMembers rt now a gid ids s))"
proof -
  obtain res s1 where auth: "requireAuth rt now ''group.addMembers'' a
      (addMembers_payload gid ids) s = (res, s1)"
    by (cases "requireAuth rt now ''group.addMembers'' a (addMembers_payload gid ids) s")
  have inv1: "schema_invariant s1"
    using requireAuth_invariant [OF auth] assms by simp
  show ?thesis
    using inv1
    by (auto simp: group_addMembers_def auth split: sum.splits option.splits
        dest: insert_members_onConflictDoNothing_invariant)
qed

lemma listMine_invariant:
  assumes "schema_invariant s"
  shows "schema_invariant (snd (group_listMine rt now a s))"
proof -
  obtain res s1 where auth: "requireAuth rt now ''group.listMine'' a [] s = (res, s1)"
    by (cases "requireAuth rt now ''group.listMine'' a [] s")
  have inv1: "schema_invariant s1"
    using requireAuth_invariant [OF auth] assms by simp
  show ?thesis
    using inv1 by (auto simp: group_listMine_def auth split: sum.splits)
qed

lemma getMembers_invariant:
  assumes "schema_invariant s"
  shows "schema_invariant (snd (group_getMembers rt now a gid s))"
proof -
  obtain res s1 where auth: "requireAuth rt now ''group.getMembers'' a
      [(''groupId'', JNum gid)] s = (res, s1)"
    by (cases "requireAuth rt now ''group.getMembers'' a [(''groupId'', JNum gid)] s")
  have inv1: "schema_invariant s1"
    using requireAuth_invariant [OF auth] assms by simp
  show ?thesis
    using inv1 by (auto simp: group_getMembers_def auth split: sum.splits option.splits)
qed

lemma post_invariant:
  assumes "schema_invariant s"
  shows "schema_invariant (snd (group_post rt now a gid c h cid t s))"
proof -
  obtain res s1 where auth: "requireAuth rt now ''group.post'' a
      (post_payload gid c h cid t) s = (res, s1)"
    by (cases "requireAuth rt now ''group.post'' a (post_payload gid c h cid t) s")
  have inv1: "schema_invariant s1"
    using requireAuth_invariant [OF auth] assms by simp
  show ?thesis
    using inv1
    by (auto simp: group_post_def auth
        split: sum.splits prod.splits option.splits list.splits
        dest: insert_gmessage_invariant)
qed

lemma gpoll_invariant:
  assumes "schema_invariant s"
  shows "schema_invariant (snd (group_poll rt now a gid since s))"
proof -
  obtain res s1 where auth: "requireAuth rt now ''group.poll'' a
      [(''groupId'', JNum gid), (''since'', since_json since)] s = (res, s1)"
    by (cases "requireAuth rt now ''group.poll'' a
      [(''groupId'', JNum gid), (''since'', since_json since)] s")
  have inv1: "schema_invariant s1"
    using requireAuth_invariant [OF auth] assms by simp
  show ?thesis
    using inv1 by (auto simp: group_poll_def auth split: sum.splits option.splits)
qed

lemma gackDelete_invariant:
  assumes "schema_invariant s"
  shows "schema_invariant (snd (group_ackDelete rt now a qid s))"
proof -
  obtain res s1 where auth: "requireAuth rt now ''group.ackDelete'' a
      [(''queuedMsgId'', JNum qid)] s = (res, s1)"
    by (cases "requireAuth rt now ''group.ackDelete'' a [(''queuedMsgId'', JNum qid)] s")
  have inv1: "schema_invariant s1"
    using requireAuth_invariant [OF auth] assms by simp
  show ?thesis
    using inv1 by (auto simp: group_ackDelete_def auth split: sum.splits option.splits)
qed

lemma appRouter_invariant:
  "schema_invariant s \<Longrightarrow> schema_invariant (snd (appRouter rt now r s))"
  by (cases r)
     (simp_all add: registerBundle_invariant getBundle_invariant send_invariant poll_invariant
        ackDelete_invariant create_invariant addMembers_invariant listMine_invariant
        getMembers_invariant post_invariant gpoll_invariant gackDelete_invariant)

lemma serve_invariant:
  "schema_invariant s \<Longrightarrow> schema_invariant (serve rt rs s)"
  by (induction rs arbitrary: s) (auto simp: appRouter_invariant)

lemma reachable_invariant: "schema_invariant (serve rt rs empty_db)"
  by (simp add: serve_invariant schema_invariant_empty)

lemma insert_message_createdAt:
  assumes "insert_message r s = (s', x)" and "0 < mq_createdAt r"
    and "\<forall>m \<in> set (messageQueue s). 0 < mq_createdAt m"
  shows "\<forall>m \<in> set (messageQueue s'). 0 < mq_createdAt m"
  using assms by (auto simp: insert_message_def Let_def split: if_splits)

lemma send_createdAt_positive:
  assumes "\<forall>m \<in> set (messageQueue s). 0 < mq_createdAt m" and "0 < t"
  shows "\<forall>m \<in> set (messageQueue (snd (message_send rt now a to c h cid t s))). 0 < mq_createdAt m"
proof -
  obtain res s1 where auth: "requireAuth rt now ''message.send'' a
      (send_payload to c h cid t) s = (res, s1)"
    by (cases "requireAuth rt now ''message.send'' a (send_payload to c h cid t) s")
  have "messageQueue s1 = messageQueue s"
    using requireAuth_cases [of rt now "''message.send''" a "send_payload to c h cid t" s] auth
    by auto
  then have pos1: "\<forall>m \<in> set (messageQueue s1). 0 < mq_createdAt m"
    using assms(1) by simp
  have "\<forall>m \<in> set (messageQueue s2). 0 < mq_createdAt m"
    if "insert_message \<lparr>mq_queuedMsgId = 0, mq_toUserId = to, mq_fromUserId = u,
                        mq_ciphertext = c, mq_header = h, mq_clientMsgId = cid,
                        mq_createdAt = t, mq_expiresAt = None\<rparr> s1 = (s2, x)" for u s2 x
    using insert_message_createdAt [OF that] assms(2) pos1 by simp
  then show ?thesis
    using pos1
    by (simp add: message_send_def auth
        split: sum.splits prod.splits option.splits list.splits)
qed

end
